theory Spec2Isabelle
  imports Main "HOL-Library.Sublist"
begin

section \<open>Text primitives\<close>

text \<open>
  Rule text is a Python \<open>str\<close>. It is modelled as a \<open>string\<close> with one \<open>char\<close> per
  code point, for text in the ASCII range: \<open>str.lower\<close> maps \<open>A\<close>..\<open>Z\<close> to \<open>a\<close>..\<open>z\<close>,
  \<open>str.strip\<close> and the regular expression class \<open>\s\<close> take the ASCII white space
  (codes 9 to 13, 28 to 31 and 32), and \<open>\b\<close> takes letters, digits and the underscore as
  word characters.
\<close>

definition lower_char :: "char \<Rightarrow> char" where
  "lower_char c =
     (let n = (of_char c :: nat) in if 65 \<le> n \<and> n \<le> 90 then char_of (n + 32) else c)"

definition lower :: "string \<Rightarrow> string" where
  "lower s = map lower_char s"

definition is_space :: "char \<Rightarrow> bool" where
  "is_space c =
     (let n = (of_char c :: nat) in (9 \<le> n \<and> n \<le> 13) \<or> (28 \<le> n \<and> n \<le> 32))"

definition is_word :: "char \<Rightarrow> bool" where
  "is_word c =
     (let n = (of_char c :: nat)
      in (48 \<le> n \<and> n \<le> 57) \<or> (65 \<le> n \<and> n \<le> 90) \<or> n = 95 \<or> (97 \<le> n \<and> n \<le> 122))"

definition strip :: "string \<Rightarrow> string" where
  "strip s = rev (dropWhile is_space (rev (dropWhile is_space s)))"

text \<open>\<open>kw in s\<close> on strings: \<open>kw\<close> occurs in \<open>s\<close> as a contiguous run.\<close>

fun py_in :: "string \<Rightarrow> string \<Rightarrow> bool" where
  "py_in kw [] = (kw = [])"
| "py_in kw (c # cs) = (prefix kw (c # cs) \<or> py_in kw cs)"

text \<open>\<open>re.split(r'[,;]', rules)\<close>: every comma and every semicolon ends a piece.\<close>

definition is_separator :: "char \<Rightarrow> bool" where
  "is_separator c = (c = CHR '','' \<or> c = CHR '';'')"

fun re_split :: "string \<Rightarrow> string list" where
  "re_split [] = [[]]"
| "re_split (c # cs) =
     (if is_separator c then [] # re_split cs
      else (case re_split cs of [] \<Rightarrow> [[c]] | p # ps \<Rightarrow> (c # p) # ps))"

text \<open>
  \<open>re.search\<close> with the pattern \<open>d([^d]+)d\<close> for a delimiter character \<open>d\<close> (the backtick
  or the double quote): the leftmost \<open>d\<close> that is followed by at least one character other
  than \<open>d\<close> and then by \<open>d\<close>; the result is group 1.
\<close>

fun re_search_delimited :: "char \<Rightarrow> string \<Rightarrow> string option" where
  "re_search_delimited d [] = None"
| "re_search_delimited d (c # cs) =
     (if c = d \<and> takeWhile (\<lambda>x. x \<noteq> d) cs \<noteq> [] \<and> dropWhile (\<lambda>x. x \<noteq> d) cs \<noteq> []
      then Some (takeWhile (\<lambda>x. x \<noteq> d) cs)
      else re_search_delimited d cs)"

text \<open>
  \<open>re.search(r'\b(run|execute|check|validate|format|scan)\s+(\S+)', rule_lower)\<close>.
  \<open>re_tail\<close> is \<open>\s+(\S+)\<close> anchored where the verb ends, both runs greedy; \<open>re_verbs\<close> tries
  the alternatives from left to right at one position; \<open>re_search_verb\<close> moves the start
  from left to right, its flag telling whether the character before is a word character.
\<close>

definition verbs :: "string list" where
  "verbs = [''run'', ''execute'', ''check'', ''validate'', ''format'', ''scan'']"

definition re_tail :: "string \<Rightarrow> string option" where
  "re_tail s =
     (let tok = takeWhile (\<lambda>c. \<not> is_space c) (dropWhile is_space s)
      in if takeWhile is_space s \<noteq> [] \<and> tok \<noteq> [] then Some tok else None)"

fun re_verbs :: "string list \<Rightarrow> string \<Rightarrow> string option" where
  "re_verbs [] s = None"
| "re_verbs (v # vs) s =
     (if prefix v s
      then (case re_tail (drop (length v) s) of Some t \<Rightarrow> Some t | None \<Rightarrow> re_verbs vs s)
      else re_verbs vs s)"

fun re_search_verb :: "bool \<Rightarrow> string \<Rightarrow> string option" where
  "re_search_verb prev_word [] = None"
| "re_search_verb prev_word (c # cs) =
     (if prev_word \<noteq> is_word c
      then (case re_verbs verbs (c # cs) of
              Some t \<Rightarrow> Some t
            | None \<Rightarrow> re_search_verb (is_word c) cs)
      else re_search_verb (is_word c) cs)"

section \<open>Rule analysis (rule2hook_mcp_server.py)\<close>

text \<open>The keyword table, in the order the dictionary literal declares it.\<close>

definition HOOK_EVENTS :: "(string \<times> string list) list" where
  "HOOK_EVENTS =
     [(''PreToolUse'', [''before'', ''check'', ''validate'', ''prevent'', ''scan'', ''verify'']),
      (''PostToolUse'', [''after'', ''following'', ''once done'', ''when finished'']),
      (''Stop'', [''finish'', ''complete'', ''end task'', ''done'', ''wrap up'']),
      (''Notification'', [''notify'', ''alert'', ''inform'', ''message''])]"

text \<open>\<open>any(word in rule_lower for word in words)\<close>.\<close>

definition any_in :: "string list \<Rightarrow> string \<Rightarrow> bool" where
  "any_in words rule_lower = list_ex (\<lambda>word. py_in word rule_lower) words"

text \<open>The two nested loops of \<open>_determine_event\<close>, leaving at the first keyword found.\<close>

fun scan_events :: "(string \<times> string list) list \<Rightarrow> string \<Rightarrow> string option" where
  "scan_events [] rule_lower = None"
| "scan_events ((event, keywords) # rest) rule_lower =
     (if any_in keywords rule_lower then Some event else scan_events rest rule_lower)"

definition determine_event :: "string \<Rightarrow> string" where
  "determine_event rule =
     (let rule_lower = lower rule
      in case scan_events HOOK_EVENTS rule_lower of
           Some event \<Rightarrow> event
         | None \<Rightarrow>
             if any_in [''edit'', ''modify'', ''save'', ''write''] rule_lower
             then ''PostToolUse'' else ''Stop'')"

text \<open>The closing loop of \<open>_determine_tools\<close>: keep the first occurrence of each tool.\<close>

fun unique_loop :: "string list \<Rightarrow> string list \<Rightarrow> string list \<Rightarrow> string list" where
  "unique_loop [] seen unique_tools = unique_tools"
| "unique_loop (tool # tools) seen unique_tools =
     (if tool \<in> set seen then unique_loop tools seen unique_tools
      else unique_loop tools (tool # seen) (unique_tools @ [tool]))"

definition determine_tools :: "string \<Rightarrow> string list" where
  "determine_tools rule =
     (let rule_lower = lower rule;
          t0 = [];
          t1 = (if any_in [''edit'', ''modify'', ''save'', ''file'', ''code''] rule_lower
                then t0 @ [''Edit'', ''MultiEdit'', ''Write''] else t0);
          t2 = (if any_in [''command'', ''bash'', ''shell'', ''execute'', ''run''] rule_lower
                then (if ''bash'' \<notin> set t1 then t1 @ [''Bash''] else t1) else t1);
          t3 = (if any_in [''search'', ''find'', ''grep''] rule_lower
                then t2 @ [''Grep'', ''Glob''] else t2);
          t4 = (if py_in ''read'' rule_lower then t3 @ [''Read''] else t3);
          t5 = (if any_in [''web'', ''fetch'', ''download''] rule_lower
                then t4 @ [''WebFetch'', ''WebSearch''] else t4);
          t6 = (if py_in ''todo'' rule_lower then t5 @ [''TodoRead'', ''TodoWrite''] else t5)
      in unique_loop t6 [] [])"

definition qualifies :: "string \<Rightarrow> bool" where
  "qualifies quoted = list_ex (\<lambda>char. char \<in> set quoted) [CHR '' '', CHR ''/'', CHR ''-'']"

definition extract_command :: "string \<Rightarrow> string option" where
  "extract_command rule =
     (let rule_lower = lower rule
      in case re_search_delimited (CHR 0x60) rule of
           Some backtick \<Rightarrow> Some backtick
         | None \<Rightarrow>
             let quote_match = re_search_delimited (CHR 0x22) rule
             in if quote_match \<noteq> None \<and> qualifies (the quote_match) then quote_match
                else if py_in ''black'' rule_lower \<and> py_in ''python'' rule_lower
                  then Some ''black . --quiet 2>/dev/null || true''
                else if py_in ''prettier'' rule_lower
                  then Some ''prettier --write . 2>/dev/null || true''
                else if py_in ''git status'' rule_lower
                  then Some ''git status''
                else if py_in ''npm test'' rule_lower
                  then Some (''npm test 2>/dev/null || echo '' @ [CHR 0x27] @ ''Tests need attention'' @ [CHR 0x27])
                else if py_in ''npm run lint'' rule_lower
                  then Some ''npm run lint 2>/dev/null || true''
                else if py_in ''todo'' rule_lower \<and> py_in ''comment'' rule_lower
                  then Some (''grep -r '' @ [CHR 0x27] @ ''TODO'' @ [CHR 0x27] @ '' . 2>/dev/null || echo ''
                             @ [CHR 0x27] @ ''No TODOs found'' @ [CHR 0x27])
                else if py_in ''secret'' rule_lower \<or> py_in ''credential'' rule_lower
                  then Some (''git secrets --scan 2>/dev/null || echo '' @ [CHR 0x27]
                             @ ''No secrets found'' @ [CHR 0x27])
                else (case re_search_verb False rule_lower of
                        Some token \<Rightarrow> Some (token @ '' 2>/dev/null || true'')
                      | None \<Rightarrow> None))"

section \<open>Python values\<close>

text \<open>
  What \<open>json.load\<close> returns and what the tools build: \<open>None\<close>, booleans, integers,
  strings, lists and dictionaries (floating-point numbers are left out). A dictionary is
  the list of its items in insertion order; \<open>json.load\<close> and the dictionary operations
  below keep the keys of such a list distinct.
\<close>

datatype json =
    JNull
  | JBool bool
  | JNum int
  | JStr string
  | JArr "json list"
  | JObj "(string \<times> json) list"

datatype py_error =
    ValidationError string
  | FileNotFoundError
  | AttributeError
  | TypeError
  | IndexError
  | KeyError

text \<open>The state of a path that is opened and parsed: absent, not JSON, or a value.\<close>

datatype 'a path_state = Missing | Malformed | Parsed 'a

text \<open>\<open>d[k] = v\<close>: replace the value of a present key in place, else add the item last.\<close>

fun dict_set :: "'k \<Rightarrow> 'v \<Rightarrow> ('k \<times> 'v) list \<Rightarrow> ('k \<times> 'v) list" where
  "dict_set k v [] = [(k, v)]"
| "dict_set k v ((k', v') # rest) =
     (if k' = k then (k', v) # rest else (k', v') # dict_set k v rest)"

text \<open>\<open>d.get(k, default)\<close>; \<open>d.get(k)\<close> has the default \<open>None\<close>.\<close>

definition dict_get :: "(string \<times> json) list \<Rightarrow> string \<Rightarrow> json \<Rightarrow> json" where
  "dict_get d k dflt = (case map_of d k of Some v \<Rightarrow> v | None \<Rightarrow> dflt)"

text \<open>The truth value of an object in \<open>if x\<close> and \<open>not x\<close>.\<close>

fun truthy :: "json \<Rightarrow> bool" where
  "truthy JNull = False"
| "truthy (JBool b) = b"
| "truthy (JNum n) = (n \<noteq> 0)"
| "truthy (JStr s) = (s \<noteq> [])"
| "truthy (JArr xs) = (xs \<noteq> [])"
| "truthy (JObj kvs) = (kvs \<noteq> [])"

text \<open>Decimal rendering of a natural number, as an f-string does it.\<close>

fun show_nat :: "nat \<Rightarrow> string" where
  "show_nat n =
     (if n < 10 then [char_of (48 + n)] else show_nat (n div 10) @ [char_of (48 + n mod 10)])"

text \<open>\<open>sep.join(parts)\<close>.\<close>

fun join :: "string \<Rightarrow> string list \<Rightarrow> string" where
  "join sep [] = []"
| "join sep [p] = p"
| "join sep (p # q # ps) = p @ sep @ join sep (q # ps)"

section \<open>Rule conversion\<close>

text \<open>
  Both versions build the same dictionaries. The fields \<open>message\<close> and \<open>json\<close> of the
  replies, which render the other fields as text, and the notifications sent to the client
  context are not modelled.
\<close>

record conversion =
  cv_rule :: string
  cv_event :: string
  cv_tools :: "string list"
  cv_command :: string

record failure =
  fl_rule :: string
  fl_error :: string

record conv_state =
  st_hooks :: "(string \<times> json list) list"
  st_converted :: "conversion list"
  st_failed :: "failure list"

definition hook_group_for :: "string \<Rightarrow> string list \<Rightarrow> string \<Rightarrow> json" where
  "hook_group_for event tools command =
     (let hook_entry = JObj [(''type'', JStr ''command''), (''command'', JStr command)]
      in if event \<noteq> ''Stop'' \<and> tools \<noteq> []
         then JObj [(''matcher'', JStr (join ''|'' tools)), (''hooks'', JArr [hook_entry])]
         else JObj [(''hooks'', JArr [hook_entry])])"

text \<open>
  \<open>if event not in hooks_config["hooks"]: hooks_config["hooks"][event] = []\<close> followed by
  \<open>hooks_config["hooks"][event].append(hook_group)\<close>.
\<close>

definition append_group ::
  "string \<Rightarrow> json \<Rightarrow> (string \<times> json list) list \<Rightarrow> (string \<times> json list) list" where
  "append_group event hook_group hooks =
     (case map_of hooks event of
        None \<Rightarrow> dict_set event [hook_group] hooks
      | Some groups \<Rightarrow> dict_set event (groups @ [hook_group]) hooks)"

definition record_conversion ::
  "string \<Rightarrow> string \<Rightarrow> string list \<Rightarrow> string \<Rightarrow> conv_state \<Rightarrow> conv_state" where
  "record_conversion rule event tools command st =
     st\<lparr>st_hooks := append_group event (hook_group_for event tools command) (st_hooks st),
        st_converted := st_converted st
          @ [\<lparr>cv_rule = rule, cv_event = event, cv_tools = tools, cv_command = command\<rparr>]\<rparr>"

definition hooks_config_of :: "conv_state \<Rightarrow> json" where
  "hooks_config_of st = JObj [(''hooks'', JObj (map (\<lambda>(event, groups). (event, JArr groups)) (st_hooks st)))]"

definition initial_state :: conv_state where
  "initial_state = \<lparr>st_hooks = [], st_converted = [], st_failed = []\<rparr>"

subsection \<open>rule2hook_mcp_server.py\<close>

definition rule_list_v1 :: "string \<Rightarrow> string list" where
  "rule_list_v1 rules = filter (\<lambda>r. r \<noteq> []) (map strip (re_split rules))"

text \<open>One turn of the loop: a rule without a command is skipped (\<open>continue\<close>).\<close>

definition convert_one_v1 :: "string \<Rightarrow> conv_state \<Rightarrow> conv_state" where
  "convert_one_v1 rule st =
     (let event = determine_event rule;
          tools = determine_tools rule
      in case extract_command rule of
           None \<Rightarrow> st
         | Some command \<Rightarrow>
             if command = [] then st else record_conversion rule event tools command st)"

fun convert_loop_v1 :: "string list \<Rightarrow> conv_state \<Rightarrow> conv_state" where
  "convert_loop_v1 [] st = st"
| "convert_loop_v1 (rule # rules) st = convert_loop_v1 rules (convert_one_v1 rule st)"

text \<open>The two shapes of the reply: without rules, and after the loop.\<close>

datatype v1_reply =
    No_rules_provided
  | Converted_v1 string json "conversion list"

definition convert_rules_v1 :: "string \<Rightarrow> v1_reply" where
  "convert_rules_v1 rules =
     (let rule_list = rule_list_v1 rules
      in if rule_list = [] then No_rules_provided
         else let st = convert_loop_v1 rule_list initial_state
              in Converted_v1 ''success'' (hooks_config_of st) (st_converted st))"

fun v1_status :: "v1_reply \<Rightarrow> string" where
  "v1_status No_rules_provided = ''error''"
| "v1_status (Converted_v1 status cfg convs) = status"

subsection \<open>rule2hook_mcp_server_v2.py\<close>

text \<open>
  The loop of the second version calls \<open>_determine_event\<close>, \<open>_determine_tools\<close> and
  \<open>_extract_command\<close> as globals of its module. A scope gives what each of the three
  names is bound to; a name that is not bound raises \<open>NameError\<close> when the call is
  reached. rule2hook_mcp_server_v2.py imports from exceptions, contracts and defensive, and
  defines \<open>install_rule2hook\<close> and \<open>convert_rules\<close>; it ends there, so none of the
  three names is bound in it.
\<close>

record scope =
  sc_determine_event :: "(string \<Rightarrow> string) option"
  sc_determine_tools :: "(string \<Rightarrow> string list) option"
  sc_extract_command :: "(string \<Rightarrow> string option) option"

definition v2_module_scope :: scope where
  "v2_module_scope =
     \<lparr>sc_determine_event = None, sc_determine_tools = None, sc_extract_command = None\<rparr>"

definition MAX_RULE_LENGTH :: nat where
  "MAX_RULE_LENGTH = 500"

definition MAX_COMMAND_LENGTH :: nat where
  "MAX_COMMAND_LENGTH = 1000"

definition quoted :: "string \<Rightarrow> string" where
  "quoted s = [CHR 0x27] @ s @ [CHR 0x27]"

definition too_long_message :: "string \<Rightarrow> nat \<Rightarrow> string" where
  "too_long_message name max_length =
     ''Parameter '' @ quoted name @ '' exceeds maximum length of '' @ show_nat max_length"

text \<open>\<open>bounded_string\<close> of defensive.py; the error carries the message of the exception.\<close>

definition bounded_string :: "string \<Rightarrow> nat \<Rightarrow> string \<Rightarrow> py_error + string" where
  "bounded_string v max_length name =
     (if length v > max_length then Inl (ValidationError (too_long_message name max_length))
      else Inr v)"

text \<open>\<open>str(e)\<close> of that exception: the message and the details in brackets.\<close>

definition too_long_str :: "string \<Rightarrow> nat \<Rightarrow> string \<Rightarrow> string" where
  "too_long_str v max_length name =
     too_long_message name max_length
       @ '' (parameter='' @ name
       @ '', actual_length='' @ show_nat (length v)
       @ '', max_length='' @ show_nat max_length
       @ '', preview='' @ (if length v > 50 then take 50 v @ ''...'' else v) @ '')''"

text \<open>
  The list comprehension over \<open>enumerate(re.split(...))\<close>: blank pieces are dropped, the
  first trimmed piece longer than \<open>MAX_RULE_LENGTH\<close> raises.
\<close>

fun rule_list_v2 :: "nat \<Rightarrow> string list \<Rightarrow> py_error + string list" where
  "rule_list_v2 i [] = Inr []"
| "rule_list_v2 i (r # rs) =
     (if strip r = [] then rule_list_v2 (Suc i) rs
      else (case bounded_string (strip r) MAX_RULE_LENGTH (''rule_'' @ show_nat i) of
              Inl e \<Rightarrow> Inl e
            | Inr b \<Rightarrow>
                (case rule_list_v2 (Suc i) rs of
                   Inl e \<Rightarrow> Inl e
                 | Inr bs \<Rightarrow> Inr (b # bs))))"

definition parse_failure_str :: "string \<Rightarrow> string" where
  "parse_failure_str rule =
     ''Failed to parse rule '' @ quoted rule @ '': Could not determine command from rule''"

text \<open>\<open>str(e)\<close> of the \<open>NameError\<close> for a global that is not bound.\<close>

definition name_error_str :: "string \<Rightarrow> string" where
  "name_error_str name = ''name '' @ quoted name @ '' is not defined''"

text \<open>
  One turn of the loop, in a scope. \<open>RuleParsingError\<close> and any other exception raised in
  the turn, \<open>NameError\<close> included, are caught and recorded in \<open>failed_rules\<close>.
\<close>

definition convert_one_v2 :: "scope \<Rightarrow> string \<Rightarrow> conv_state \<Rightarrow> conv_state" where
  "convert_one_v2 sc rule st =
     (let fails = (\<lambda>text. st\<lparr>st_failed := st_failed st @ [\<lparr>fl_rule = rule, fl_error = text\<rparr>]\<rparr>)
      in case sc_determine_event sc of
           None \<Rightarrow> fails (''Unexpected error: '' @ name_error_str ''_determine_event'')
         | Some event_of \<Rightarrow>
             (case sc_determine_tools sc of
                None \<Rightarrow> fails (''Unexpected error: '' @ name_error_str ''_determine_tools'')
              | Some tools_of \<Rightarrow>
                  (case sc_extract_command sc of
                     None \<Rightarrow> fails (''Unexpected error: '' @ name_error_str ''_extract_command'')
                   | Some command_of \<Rightarrow>
                       (let event = event_of rule;
                            tools = tools_of rule
                        in case command_of rule of
                             None \<Rightarrow> fails (parse_failure_str rule)
                           | Some command \<Rightarrow>
                               if command = [] then fails (parse_failure_str rule)
                               else (case bounded_string command MAX_COMMAND_LENGTH ''command'' of
                                       Inl e \<Rightarrow>
                                         fails (''Unexpected error: ''
                                                @ too_long_str command MAX_COMMAND_LENGTH ''command'')
                                     | Inr bounded \<Rightarrow>
                                         record_conversion rule event tools bounded st)))))"

fun convert_loop_v2 :: "scope \<Rightarrow> string list \<Rightarrow> conv_state \<Rightarrow> conv_state" where
  "convert_loop_v2 sc [] st = st"
| "convert_loop_v2 sc (rule # rules) st = convert_loop_v2 sc rules (convert_one_v2 sc rule st)"

record conv_reply =
  status :: string
  hooks_config :: json
  converted_rules :: "conversion list"
  failed_rules :: "failure list"

definition overall_status :: "conv_state \<Rightarrow> string" where
  "overall_status st =
     (if st_converted st = [] then ''error''
      else if st_failed st \<noteq> [] then ''partial''
      else ''success'')"

text \<open>
  The decorated tool in a scope: the two preconditions of \<open>require\<close>, then the body. A
  \<open>ValidationError\<close> leaves the tool; the postconditions of \<open>ensure\<close> hold of every reply
  built here.
\<close>

definition convert_rules_in :: "scope \<Rightarrow> string \<Rightarrow> py_error + conv_reply" where
  "convert_rules_in sc rules =
     (if strip rules = []
      then Inl (ValidationError (''Precondition failed in convert_rules: Parameter ''
                                 @ quoted ''rules'' @ '' must not be empty''))
      else if \<not> length rules < MAX_RULE_LENGTH * 10
      then Inl (ValidationError ''Precondition failed in convert_rules: Precondition 2'')
      else (case bounded_string (strip rules) (MAX_RULE_LENGTH * 10) ''rules'' of
              Inl e \<Rightarrow> Inl e
            | Inr rules_text \<Rightarrow>
                (case rule_list_v2 0 (re_split rules_text) of
                   Inl e \<Rightarrow> Inl e
                 | Inr rule_list \<Rightarrow>
                     if rule_list = []
                     then Inl (ValidationError ''No valid rules found after parsing'')
                     else let st = convert_loop_v2 sc rule_list initial_state
                          in Inr \<lparr>status = overall_status st,
                                  hooks_config = hooks_config_of st,
                                  converted_rules = st_converted st,
                                  failed_rules = st_failed st\<rparr>)))"

text \<open>\<open>convert_rules\<close> as rule2hook_mcp_server_v2.py runs it: in the scope of its module.\<close>

definition convert_rules_v2 :: "string \<Rightarrow> py_error + conv_reply" where
  "convert_rules_v2 rules = convert_rules_in v2_module_scope rules"

section \<open>Validation of a hooks document\<close>

text \<open>
  The texts appended to \<open>issues\<close> and \<open>warnings\<close> are kept as values that hold what
  the f-string is filled with: the event, the indices and, for the type warning, the value
  of \<open>hook.get("type")\<close> (\<open>None\<close> when the key is absent).
\<close>

datatype issue =
    Root_not_object
  | Missing_hooks_key
  | Hooks_not_object
  | Event_not_array string
  | Group_not_object string nat
  | Group_missing_hooks string nat
  | Group_hooks_not_array string nat
  | Hook_not_object string nat nat
  | Hook_missing_command string nat nat

datatype warning =
    Unknown_event string
  | Unexpected_type string nat nat json

record summary =
  sm_event :: string
  sm_matcher :: json
  sm_command :: json

record vstate =
  issues :: "issue list"
  warnings :: "warning list"
  hook_count :: nat
  hooks_summary :: "summary list"

definition valid_events :: "string set" where
  "valid_events = {''PreToolUse'', ''PostToolUse'', ''Stop'', ''Notification''}"

definition add_issue :: "issue \<Rightarrow> vstate \<Rightarrow> vstate" where
  "add_issue i st = st\<lparr>issues := issues st @ [i]\<rparr>"

definition add_warning :: "warning \<Rightarrow> vstate \<Rightarrow> vstate" where
  "add_warning w st = st\<lparr>warnings := warnings st @ [w]\<rparr>"

subsection \<open>validate_hooks of rule2hook_mcp_server.py\<close>

text \<open>
  \<open>command[:50] + "..." if len(command) > 50 else command\<close> for a command that is true:
  \<open>len\<close> raises on a number or a boolean, and the sum raises on a list or a dictionary of
  more than 50 items (the slice of a dictionary raises \<open>TypeError\<close> up to Python 3.11 and
  \<open>KeyError\<close> from 3.12; the model says \<open>TypeError\<close>).
\<close>

fun shorten :: "json \<Rightarrow> py_error + json" where
  "shorten (JStr s) = Inr (JStr (if length s > 50 then take 50 s @ ''...'' else s))"
| "shorten (JArr xs) = (if length xs > 50 then Inl TypeError else Inr (JArr xs))"
| "shorten (JObj kvs) = (if length kvs > 50 then Inl TypeError else Inr (JObj kvs))"
| "shorten v = Inl TypeError"

definition validate_hook ::
  "string \<Rightarrow> nat \<Rightarrow> json \<Rightarrow> nat \<Rightarrow> json \<Rightarrow> vstate \<Rightarrow> py_error + vstate" where
  "validate_hook event i matcher j hook st =
     (case hook of
        JObj h \<Rightarrow>
          let hook_type = dict_get h ''type'' JNull;
              command = dict_get h ''command'' JNull;
              st1 = (if hook_type \<noteq> JStr ''command''
                     then add_warning (Unexpected_type event i j hook_type) st else st)
          in if \<not> truthy command then Inr (add_issue (Hook_missing_command event i j) st1)
             else (case shorten command of
                     Inl e \<Rightarrow> Inl e
                   | Inr short \<Rightarrow>
                       Inr (st1\<lparr>hook_count := hook_count st1 + 1,
                                hooks_summary := hooks_summary st1
                                  @ [\<lparr>sm_event = event,
                                      sm_matcher = (if truthy matcher then matcher
                                                    else JStr ''All tools''),
                                      sm_command = short\<rparr>]\<rparr>))
      | _ \<Rightarrow> Inr (add_issue (Hook_not_object event i j) st))"

fun validate_hook_list ::
  "string \<Rightarrow> nat \<Rightarrow> json \<Rightarrow> nat \<Rightarrow> json list \<Rightarrow> vstate \<Rightarrow> py_error + vstate" where
  "validate_hook_list event i matcher j [] st = Inr st"
| "validate_hook_list event i matcher j (hook # rest) st =
     (case validate_hook event i matcher j hook st of
        Inl e \<Rightarrow> Inl e
      | Inr st' \<Rightarrow> validate_hook_list event i matcher (Suc j) rest st')"

definition validate_group :: "string \<Rightarrow> nat \<Rightarrow> json \<Rightarrow> vstate \<Rightarrow> py_error + vstate" where
  "validate_group event i hook_group st =
     (case hook_group of
        JObj g \<Rightarrow>
          let matcher = dict_get g ''matcher'' (JStr [])
          in (case map_of g ''hooks'' of
                None \<Rightarrow> Inr (add_issue (Group_missing_hooks event i) st)
              | Some (JArr hook_list) \<Rightarrow> validate_hook_list event i matcher 0 hook_list st
              | Some _ \<Rightarrow> Inr (add_issue (Group_hooks_not_array event i) st))
      | _ \<Rightarrow> Inr (add_issue (Group_not_object event i) st))"

fun validate_groups :: "string \<Rightarrow> nat \<Rightarrow> json list \<Rightarrow> vstate \<Rightarrow> py_error + vstate" where
  "validate_groups event i [] st = Inr st"
| "validate_groups event i (hook_group # rest) st =
     (case validate_group event i hook_group st of
        Inl e \<Rightarrow> Inl e
      | Inr st' \<Rightarrow> validate_groups event (Suc i) rest st')"

definition validate_event :: "string \<Rightarrow> json \<Rightarrow> vstate \<Rightarrow> py_error + vstate" where
  "validate_event event event_hooks st =
     (let st1 = (if event \<notin> valid_events then add_warning (Unknown_event event) st else st)
      in case event_hooks of
           JArr groups \<Rightarrow> validate_groups event 0 groups st1
         | _ \<Rightarrow> Inr (add_issue (Event_not_array event) st1))"

fun validate_events :: "(string \<times> json) list \<Rightarrow> vstate \<Rightarrow> py_error + vstate" where
  "validate_events [] st = Inr st"
| "validate_events ((event, event_hooks) # rest) st =
     (case validate_event event event_hooks st of
        Inl e \<Rightarrow> Inl e
      | Inr st' \<Rightarrow> validate_events rest st')"

text \<open>
  The shapes of the reply: the two early returns on the file, the early return on the
  structure (status \<open>error\<close>, message \<open>Invalid structure\<close> and the issues), and the report
  after the traversal with its status.
\<close>

datatype validation_reply =
    File_does_not_exist
  | Json_parsing_error
  | Invalid_structure "issue list"
  | Report string vstate

definition validate_hooks :: "json path_state \<Rightarrow> py_error + validation_reply" where
  "validate_hooks file =
     (case file of
        Missing \<Rightarrow> Inr File_does_not_exist
      | Malformed \<Rightarrow> Inr Json_parsing_error
      | Parsed config \<Rightarrow>
          (case config of
             JObj root \<Rightarrow>
               (case map_of root ''hooks'' of
                  None \<Rightarrow> Inr (Invalid_structure [Missing_hooks_key])
                | Some (JObj hooks) \<Rightarrow>
                    (case validate_events hooks
                            \<lparr>issues = [], warnings = [], hook_count = 0, hooks_summary = []\<rparr> of
                       Inl e \<Rightarrow> Inl e
                     | Inr st \<Rightarrow>
                         Inr (Report (if issues st = [] then ''success'' else ''error'') st))
                | Some _ \<Rightarrow> Inr (Invalid_structure [Hooks_not_object]))
           | _ \<Rightarrow> Inr (Invalid_structure [Root_not_object])))"

fun reply_status :: "validation_reply \<Rightarrow> string" where
  "reply_status File_does_not_exist = ''error''"
| "reply_status Json_parsing_error = ''error''"
| "reply_status (Invalid_structure found) = ''error''"
| "reply_status (Report status_text st) = status_text"

fun reply_issues :: "validation_reply \<Rightarrow> issue list option" where
  "reply_issues File_does_not_exist = None"
| "reply_issues Json_parsing_error = None"
| "reply_issues (Invalid_structure found) = Some found"
| "reply_issues (Report status_text st) = Some (issues st)"

subsection \<open>validate-hooks.py, single file mode\<close>








text \<open>
  What a \<open>for\<close> loop runs over: the items of a list, the characters of a string, the keys
  of a dictionary; other values are not iterable.
\<close>

fun py_iter :: "json \<Rightarrow> py_error + json list" where
  "py_iter (JArr xs) = Inr xs"
| "py_iter (JStr s) = Inr (map (\<lambda>c. JStr [c]) s)"
| "py_iter (JObj kvs) = Inr (map (\<lambda>kv. JStr (fst kv)) kvs)"
| "py_iter v = Inl TypeError"






section \<open>Conflict detection\<close>

text \<open>
  The loops of \<open>detect_conflicts\<close> (rule2hook_mcp_server.py) and of
  \<open>detect_merge_conflicts\<close> (validate-hooks.py) are the same statements; the first
  collects the conflicts, the second only remembers that there was one.
\<close>

record conflict =
  cf_event :: string
  cf_matcher :: json
  cf_existing_command :: json
  cf_new_command :: json

text \<open>
  A matcher used as a dictionary key: lists and dictionaries are not hashable, and \<open>True\<close>
  is the same key as \<open>1\<close> (a matcher that is false is never used as a key).
\<close>

fun hash_key :: "json \<Rightarrow> json option" where
  "hash_key (JArr xs) = None"
| "hash_key (JObj kvs) = None"
| "hash_key (JBool b) = Some (JNum (if b then 1 else 0))"
| "hash_key v = Some v"

text \<open>\<open>hook_group.get("hooks", [{}])[0].get("command", "")\<close>.\<close>

definition first_command :: "(string \<times> json) list \<Rightarrow> py_error + json" where
  "first_command hook_group =
     (case map_of hook_group ''hooks'' of
        None \<Rightarrow> Inr (JStr [])
      | Some (JArr []) \<Rightarrow> Inl IndexError
      | Some (JArr (JObj h # rest)) \<Rightarrow> Inr (dict_get h ''command'' (JStr []))
      | Some (JArr (other # rest)) \<Rightarrow> Inl AttributeError
      | Some (JStr []) \<Rightarrow> Inl IndexError
      | Some (JStr (c # rest)) \<Rightarrow> Inl AttributeError
      | Some (JObj kvs) \<Rightarrow> Inl KeyError
      | Some other \<Rightarrow> Inl TypeError)"

text \<open>The first loop: the matchers of the existing document, by event.\<close>

fun index_groups :: "json list \<Rightarrow> (json \<times> json) list \<Rightarrow> py_error + (json \<times> json) list" where
  "index_groups [] matchers = Inr matchers"
| "index_groups (hook_group # rest) matchers =
     (case hook_group of
        JObj g \<Rightarrow>
          let matcher = dict_get g ''matcher'' (JStr [])
          in if truthy matcher
             then (case first_command g of
                     Inl e \<Rightarrow> Inl e
                   | Inr command \<Rightarrow>
                       (case hash_key matcher of
                          None \<Rightarrow> Inl TypeError
                        | Some k \<Rightarrow> index_groups rest (dict_set k command matchers)))
             else index_groups rest matchers
      | _ \<Rightarrow> Inl AttributeError)"

fun index_events ::
  "(string \<times> json) list \<Rightarrow> (string \<times> (json \<times> json) list) list
     \<Rightarrow> py_error + (string \<times> (json \<times> json) list) list" where
  "index_events [] existing_matchers = Inr existing_matchers"
| "index_events ((event, hooks_list) # rest) existing_matchers =
     (case py_iter hooks_list of
        Inl e \<Rightarrow> Inl e
      | Inr groups \<Rightarrow>
          (case index_groups groups [] of
             Inl e \<Rightarrow> Inl e
           | Inr matchers \<Rightarrow> index_events rest (dict_set event matchers existing_matchers)))"

text \<open>The second loop: the groups of the new document against that index.\<close>

fun check_groups ::
  "string \<Rightarrow> (json \<times> json) list \<Rightarrow> json list \<Rightarrow> conflict list \<Rightarrow> py_error + conflict list" where
  "check_groups event matchers [] conflicts = Inr conflicts"
| "check_groups event matchers (new_hook_group # rest) conflicts =
     (case new_hook_group of
        JObj g \<Rightarrow>
          let new_matcher = dict_get g ''matcher'' (JStr [])
          in if truthy new_matcher
             then (case hash_key new_matcher of
                     None \<Rightarrow> Inl TypeError
                   | Some k \<Rightarrow>
                       (case map_of matchers k of
                          None \<Rightarrow> check_groups event matchers rest conflicts
                        | Some existing_command \<Rightarrow>
                            (case first_command g of
                               Inl e \<Rightarrow> Inl e
                             | Inr new_command \<Rightarrow>
                                 check_groups event matchers rest
                                   (conflicts @ [\<lparr>cf_event = event,
                                                   cf_matcher = new_matcher,
                                                   cf_existing_command = existing_command,
                                                   cf_new_command = new_command\<rparr>]))))
             else check_groups event matchers rest conflicts
      | _ \<Rightarrow> Inl AttributeError)"

fun check_events ::
  "(string \<times> (json \<times> json) list) list \<Rightarrow> (string \<times> json) list \<Rightarrow> conflict list
     \<Rightarrow> py_error + conflict list" where
  "check_events existing_matchers [] conflicts = Inr conflicts"
| "check_events existing_matchers ((event, new_hooks_list) # rest) conflicts =
     (case map_of existing_matchers event of
        None \<Rightarrow> check_events existing_matchers rest conflicts
      | Some matchers \<Rightarrow>
          (case py_iter new_hooks_list of
             Inl e \<Rightarrow> Inl e
           | Inr groups \<Rightarrow>
               (case check_groups event matchers groups conflicts of
                  Inl e \<Rightarrow> Inl e
                | Inr conflicts' \<Rightarrow> check_events existing_matchers rest conflicts')))"

text \<open>\<open>config.get("hooks", {})\<close> on the root of a document.\<close>

definition hooks_of :: "json \<Rightarrow> py_error + json" where
  "hooks_of config =
     (case config of JObj root \<Rightarrow> Inr (dict_get root ''hooks'' (JObj [])) | _ \<Rightarrow> Inl AttributeError)"

text \<open>\<open>hooks.items()\<close>.\<close>

definition items_of :: "json \<Rightarrow> py_error + (string \<times> json) list" where
  "items_of hooks = (case hooks of JObj kvs \<Rightarrow> Inr kvs | _ \<Rightarrow> Inl AttributeError)"

text \<open>Both documents parsed: from the two \<open>.get("hooks", {})\<close> to the end of the loops.\<close>

definition find_conflicts :: "json \<Rightarrow> json \<Rightarrow> py_error + conflict list" where
  "find_conflicts existing_config new_config =
     (case hooks_of existing_config of
        Inl e \<Rightarrow> Inl e
      | Inr existing_hooks \<Rightarrow>
          (case hooks_of new_config of
             Inl e \<Rightarrow> Inl e
           | Inr new_hooks \<Rightarrow>
               (case items_of existing_hooks of
                  Inl e \<Rightarrow> Inl e
                | Inr existing_items \<Rightarrow>
                    (case index_events existing_items [] of
                       Inl e \<Rightarrow> Inl e
                     | Inr existing_matchers \<Rightarrow>
                         (case items_of new_hooks of
                            Inl e \<Rightarrow> Inl e
                          | Inr new_items \<Rightarrow> check_events existing_matchers new_items [])))))"

text \<open>
  The replies of \<open>detect_conflicts\<close>: no existing file (\<open>has_conflicts\<close> false, no list),
  a JSON error in either input, and the result with \<open>has_conflicts\<close> and \<open>conflicts\<close>.
\<close>

datatype conflict_reply =
    No_existing_file
  | Conflict_json_error
  | Checked bool "conflict list"

definition detect_conflicts :: "json path_state \<Rightarrow> json option \<Rightarrow> py_error + conflict_reply" where
  "detect_conflicts existing_file new_hooks_json =
     (case existing_file of
        Missing \<Rightarrow> Inr No_existing_file
      | Malformed \<Rightarrow> Inr Conflict_json_error
      | Parsed existing_config \<Rightarrow>
          (case new_hooks_json of
             None \<Rightarrow> Inr Conflict_json_error
           | Some new_config \<Rightarrow>
               (case find_conflicts existing_config new_config of
                  Inl e \<Rightarrow> Inl e
                | Inr conflicts \<Rightarrow> Inr (Checked (length conflicts > 0) conflicts))))"

text \<open>The keys \<open>has_conflicts\<close> and \<open>conflicts\<close> of a reply, where it has them.\<close>

fun has_conflicts :: "conflict_reply \<Rightarrow> bool option" where
  "has_conflicts No_existing_file = Some False"
| "has_conflicts Conflict_json_error = None"
| "has_conflicts (Checked flag found) = Some flag"

fun conflicts_of :: "conflict_reply \<Rightarrow> conflict list option" where
  "conflicts_of No_existing_file = None"
| "conflicts_of Conflict_json_error = None"
| "conflicts_of (Checked flag found) = Some found"

text \<open>
  \<open>detect_merge_conflicts\<close> reads the new document from a file as well and returns
  \<open>not has_conflicts\<close>; opening a new file that does not exist raises.
\<close>

definition detect_merge_conflicts :: "json path_state \<Rightarrow> json path_state \<Rightarrow> py_error + bool" where
  "detect_merge_conflicts existing_file new_file =
     (case existing_file of
        Missing \<Rightarrow> Inr True
      | Malformed \<Rightarrow> Inr False
      | Parsed existing_config \<Rightarrow>
          (case new_file of
             Missing \<Rightarrow> Inl FileNotFoundError
           | Malformed \<Rightarrow> Inr False
           | Parsed new_config \<Rightarrow>
               (case find_conflicts existing_config new_config of
                  Inl e \<Rightarrow> Inl e
                | Inr conflicts \<Rightarrow> Inr (\<not> (conflicts \<noteq> [])))))"

section \<open>Notions used in the statements\<close>

text \<open>
  The six keyword groups of \<open>_determine_tools\<close> with the tools each one adds, in the
  order of its \<open>if\<close> statements: file, command, search, read, web and todo operations.
\<close>

definition tool_groups :: "(string list \<times> string list) list" where
  "tool_groups =
     [([''edit'', ''modify'', ''save'', ''file'', ''code''], [''Edit'', ''MultiEdit'', ''Write'']),
      ([''command'', ''bash'', ''shell'', ''execute'', ''run''], [''Bash'']),
      ([''search'', ''find'', ''grep''], [''Grep'', ''Glob'']),
      ([''read''], [''Read'']),
      ([''web'', ''fetch'', ''download''], [''WebFetch'', ''WebSearch'']),
      ([''todo''], [''TodoRead'', ''TodoWrite''])]"

text \<open>A group is hit when one of its keywords occurs in the text.\<close>

definition group_hit :: "string \<Rightarrow> string list \<times> string list \<Rightarrow> bool" where
  "group_hit text g = (\<exists>kw\<in>set (fst g). sublist kw text)"

text \<open>
  The command extractor as the specification words it: four rules tried in order, the first
  that yields a command wins. The phrase table pairs a condition with a command; a
  condition is a list of alternatives, each a list of phrases that must all occur.
\<close>

definition phrase_table :: "(string list list \<times> string) list" where
  "phrase_table =
     [([[''black'', ''python'']], ''black . --quiet 2>/dev/null || true''),
      ([[''prettier'']], ''prettier --write . 2>/dev/null || true''),
      ([[''git status'']], ''git status''),
      ([[''npm test'']],
         ''npm test 2>/dev/null || echo '' @ [CHR 0x27] @ ''Tests need attention'' @ [CHR 0x27]),
      ([[''npm run lint'']], ''npm run lint 2>/dev/null || true''),
      ([[''todo'', ''comment'']],
         ''grep -r '' @ [CHR 0x27] @ ''TODO'' @ [CHR 0x27] @ '' . 2>/dev/null || echo ''
           @ [CHR 0x27] @ ''No TODOs found'' @ [CHR 0x27]),
      ([[''secret''], [''credential'']],
         ''git secrets --scan 2>/dev/null || echo '' @ [CHR 0x27] @ ''No secrets found''
           @ [CHR 0x27])]"

definition phrase_holds :: "string \<Rightarrow> string list list \<Rightarrow> bool" where
  "phrase_holds text alternatives =
     (\<exists>phrases\<in>set alternatives. \<forall>p\<in>set phrases. sublist p text)"

fun phrase_lookup :: "(string list list \<times> string) list \<Rightarrow> string \<Rightarrow> string option" where
  "phrase_lookup [] text = None"
| "phrase_lookup ((condition, cmd) # rest) text =
     (if phrase_holds text condition then Some cmd else phrase_lookup rest text)"

definition qualifying_quote :: "string \<Rightarrow> string option" where
  "qualifying_quote rule =
     (case re_search_delimited (CHR 0x22) rule of
        None \<Rightarrow> None
      | Some q \<Rightarrow> if \<exists>c\<in>{CHR '' '', CHR ''/'', CHR ''-''}. c \<in> set q then Some q else None)"

fun first_match :: "'a option list \<Rightarrow> 'a option" where
  "first_match [] = None"
| "first_match (Some x # rest) = Some x"
| "first_match (None # rest) = first_match rest"

definition extract_command_spec :: "string \<Rightarrow> string option" where
  "extract_command_spec rule =
     first_match
       [re_search_delimited (CHR 0x60) rule,
        qualifying_quote rule,
        phrase_lookup phrase_table (lower rule),
        map_option (\<lambda>token. token @ '' 2>/dev/null || true'')
          (re_search_verb False (lower rule))]"

text \<open>
  The scope in which the three names are bound to the helpers that
  rule2hook_mcp_server.py defines: what the loop of the second version does once they are
  in reach. It is not the scope of rule2hook_mcp_server_v2.py.
\<close>

definition helpers_scope :: scope where
  "helpers_scope =
     \<lparr>sc_determine_event = Some determine_event,
      sc_determine_tools = Some determine_tools,
      sc_extract_command = Some extract_command\<rparr>"

text \<open>
  The candidate rules of a call, and what it is for a rule to be converted: a non-empty
  command is extracted and passes the length bound.
\<close>

definition candidates :: "string \<Rightarrow> string list" where
  "candidates rules = filter (\<lambda>r. r \<noteq> []) (map strip (re_split (strip rules)))"

definition converts :: "string \<Rightarrow> bool" where
  "converts rule =
     (case extract_command rule of
        None \<Rightarrow> False
      | Some c \<Rightarrow> c \<noteq> [] \<and> length c \<le> MAX_COMMAND_LENGTH)"

text \<open>Reading a document by key and by index, as \<open>d[k]\<close> and \<open>xs[i]\<close> do where they succeed.\<close>

fun at_key :: "string \<Rightarrow> json \<Rightarrow> json option" where
  "at_key k (JObj kvs) = map_of kvs k"
| "at_key k v = None"

fun at_index :: "nat \<Rightarrow> json \<Rightarrow> json option" where
  "at_index i (JArr xs) = (if i < length xs then Some (xs ! i) else None)"
| "at_index i v = None"

text \<open>
  The issues of a document, read off its structure without any state: what each hook
  entry, group and event contributes, in the order of the traversal.
\<close>

definition hook_issues :: "string \<Rightarrow> nat \<Rightarrow> nat \<Rightarrow> json \<Rightarrow> issue list" where
  "hook_issues event i j hook =
     (case hook of
        JObj h \<Rightarrow>
          if truthy (dict_get h ''command'' JNull) then [] else [Hook_missing_command event i j]
      | _ \<Rightarrow> [Hook_not_object event i j])"

fun hook_list_issues :: "string \<Rightarrow> nat \<Rightarrow> nat \<Rightarrow> json list \<Rightarrow> issue list" where
  "hook_list_issues event i j [] = []"
| "hook_list_issues event i j (hook # rest) =
     hook_issues event i j hook @ hook_list_issues event i (Suc j) rest"

definition group_issues :: "string \<Rightarrow> nat \<Rightarrow> json \<Rightarrow> issue list" where
  "group_issues event i hook_group =
     (case hook_group of
        JObj g \<Rightarrow>
          (case map_of g ''hooks'' of
             None \<Rightarrow> [Group_missing_hooks event i]
           | Some (JArr hook_list) \<Rightarrow> hook_list_issues event i 0 hook_list
           | Some _ \<Rightarrow> [Group_hooks_not_array event i])
      | _ \<Rightarrow> [Group_not_object event i])"

fun groups_issues :: "string \<Rightarrow> nat \<Rightarrow> json list \<Rightarrow> issue list" where
  "groups_issues event i [] = []"
| "groups_issues event i (hook_group # rest) =
     group_issues event i hook_group @ groups_issues event (Suc i) rest"

definition event_issues :: "string \<Rightarrow> json \<Rightarrow> issue list" where
  "event_issues event event_hooks =
     (case event_hooks of
        JArr groups \<Rightarrow> groups_issues event 0 groups
      | _ \<Rightarrow> [Event_not_array event])"

definition document_issues :: "(string \<times> json) list \<Rightarrow> issue list" where
  "document_issues hooks = concat (map (\<lambda>(event, event_hooks). event_issues event event_hooks) hooks)"

text \<open>
  The top-level structure checks shared by both validators: the file holds a JSON object
  whose \<open>hooks\<close> key holds an object; the result is the list of its items.
\<close>

definition top_level :: "json path_state \<Rightarrow> (string \<times> json) list option" where
  "top_level file =
     (case file of
        Parsed (JObj root) \<Rightarrow>
          (case map_of root ''hooks'' of Some (JObj hooks) \<Rightarrow> Some hooks | _ \<Rightarrow> None)
      | _ \<Rightarrow> None)"

text \<open>
  Documents in which the command of every hook entry is a string, or is absent or null:
  on these no line of either validator raises.
\<close>

definition text_command :: "json \<Rightarrow> bool" where
  "text_command hook =
     (case hook of
        JObj h \<Rightarrow>
          (case dict_get h ''command'' JNull of JStr s \<Rightarrow> True | JNull \<Rightarrow> True | _ \<Rightarrow> False)
      | _ \<Rightarrow> True)"

definition text_commands_group :: "json \<Rightarrow> bool" where
  "text_commands_group hook_group =
     (case hook_group of
        JObj g \<Rightarrow>
          (case map_of g ''hooks'' of
             Some (JArr hook_list) \<Rightarrow> list_all text_command hook_list
           | _ \<Rightarrow> True)
      | _ \<Rightarrow> True)"

definition text_commands :: "(string \<times> json) list \<Rightarrow> bool" where
  "text_commands hooks =
     list_all
       (\<lambda>item. case snd item of JArr groups \<Rightarrow> list_all text_commands_group groups | _ \<Rightarrow> True)
       hooks"

fun is_array :: "json \<Rightarrow> bool" where
  "is_array (JArr xs) = True"
| "is_array v = False"

text \<open>
  Hook documents of the shape the data model gives them: the root is an object, \<open>hooks\<close>
  (when present) an object with distinct event names, every event mapped to an array of
  groups, every group an object whose matcher (when present) is a string and whose
  \<open>hooks\<close> (when present) is an array that starts with an object.
\<close>

definition is_hook_group :: "json \<Rightarrow> bool" where
  "is_hook_group hook_group =
     (case hook_group of
        JObj g \<Rightarrow>
          (case map_of g ''matcher'' of None \<Rightarrow> True | Some (JStr m) \<Rightarrow> True | Some _ \<Rightarrow> False)
          \<and> (case map_of g ''hooks'' of
                None \<Rightarrow> True
              | Some (JArr (JObj h # rest)) \<Rightarrow> True
              | Some _ \<Rightarrow> False)
      | _ \<Rightarrow> False)"

definition is_event_entry :: "string \<times> json \<Rightarrow> bool" where
  "is_event_entry item =
     (case snd item of JArr groups \<Rightarrow> list_all is_hook_group groups | _ \<Rightarrow> False)"

definition is_hooks_document :: "json \<Rightarrow> bool" where
  "is_hooks_document config =
     (case config of
        JObj root \<Rightarrow>
          (case map_of root ''hooks'' of
             None \<Rightarrow> True
           | Some (JObj hooks) \<Rightarrow> distinct (map fst hooks) \<and> list_all is_event_entry hooks
           | Some _ \<Rightarrow> False)
      | _ \<Rightarrow> False)"

text \<open>The parts of such a document that the statement about conflicts speaks of.\<close>

definition hooks_items :: "json \<Rightarrow> (string \<times> json) list" where
  "hooks_items config =
     (case config of
        JObj root \<Rightarrow> (case map_of root ''hooks'' of Some (JObj hooks) \<Rightarrow> hooks | _ \<Rightarrow> [])
      | _ \<Rightarrow> [])"

definition groups_in :: "json \<Rightarrow> json list" where
  "groups_in event_hooks = (case event_hooks of JArr groups \<Rightarrow> groups | _ \<Rightarrow> [])"

definition groups_under :: "json \<Rightarrow> string \<Rightarrow> json list" where
  "groups_under config event =
     (case map_of (hooks_items config) event of Some v \<Rightarrow> groups_in v | None \<Rightarrow> [])"

definition matcher_of :: "json \<Rightarrow> string" where
  "matcher_of hook_group =
     (case hook_group of
        JObj g \<Rightarrow> (case map_of g ''matcher'' of Some (JStr m) \<Rightarrow> m | _ \<Rightarrow> [])
      | _ \<Rightarrow> [])"

definition first_command_of :: "json \<Rightarrow> json" where
  "first_command_of hook_group =
     (case hook_group of
        JObj g \<Rightarrow>
          (case map_of g ''hooks'' of
             Some (JArr (JObj h # rest)) \<Rightarrow> dict_get h ''command'' (JStr [])
           | _ \<Rightarrow> JStr [])
      | _ \<Rightarrow> JStr [])"

text \<open>
  A group of the new document is in conflict when its matcher is not empty and equals the
  matcher of a group under the same event of the existing document. The conflict reported
  for it carries the first command of the last such existing group, and its own.
\<close>

definition conflicts_with :: "json \<Rightarrow> string \<Rightarrow> json \<Rightarrow> bool" where
  "conflicts_with existing event hook_group =
     (matcher_of hook_group \<noteq> []
      \<and> (\<exists>other\<in>set (groups_under existing event). matcher_of other = matcher_of hook_group))"

definition conflict_for :: "json \<Rightarrow> string \<Rightarrow> json \<Rightarrow> conflict" where
  "conflict_for existing event hook_group =
     \<lparr>cf_event = event,
      cf_matcher = JStr (matcher_of hook_group),
      cf_existing_command =
        first_command_of
          (last (filter (\<lambda>other. matcher_of other = matcher_of hook_group)
                   (groups_under existing event))),
      cf_new_command = first_command_of hook_group\<rparr>"

definition expected_conflicts :: "json \<Rightarrow> json \<Rightarrow> conflict list" where
  "expected_conflicts existing new =
     concat (map (\<lambda>item.
        map (conflict_for existing (fst item))
          (filter (conflicts_with existing (fst item)) (groups_in (snd item))))
       (hooks_items new))"

text \<open>The index that the first loop builds for the groups of one event.\<close>

definition index_of :: "json list \<Rightarrow> (json \<times> json) list" where
  "index_of groups = (case index_groups groups [] of Inr matchers \<Rightarrow> matchers | Inl e \<Rightarrow> [])"

section \<open>Text primitives: facts\<close>

lemma py_in_sublist: "py_in kw s \<longleftrightarrow> sublist kw s"
  by (induction s) (auto simp: sublist_Cons_right)

lemma sublist_eval: "sublist kw s = py_in kw s"
  by (simp add: py_in_sublist)

lemma any_in_iff: "any_in words t \<longleftrightarrow> (\<exists>w\<in>set words. sublist w t)"
  by (simp add: any_in_def list_ex_iff py_in_sublist)

lemma any_in_single: "py_in w t = any_in [w] t"
  by (simp add: any_in_def)

lemma takeWhile_upto: "d \<notin> set b \<Longrightarrow> takeWhile (\<lambda>x. x \<noteq> d) (b @ d # rest) = b"
  by (induction b) auto

lemma dropWhile_upto: "d \<notin> set b \<Longrightarrow> dropWhile (\<lambda>x. x \<noteq> d) (b @ d # rest) = d # rest"
  by (induction b) auto

lemma re_search_delimited_sound:
  "re_search_delimited d r = Some b \<Longrightarrow> b \<noteq> [] \<and> d \<notin> set b \<and> sublist (d # b @ [d]) r"
proof (induction r)
  case Nil
  then show ?case by simp
next
  case (Cons c cs)
  show ?case
  proof (cases "c = d \<and> takeWhile (\<lambda>x. x \<noteq> d) cs \<noteq> [] \<and> dropWhile (\<lambda>x. x \<noteq> d) cs \<noteq> []")
    case True
    with Cons.prems have b: "b = takeWhile (\<lambda>x. x \<noteq> d) cs" by simp
    from True obtain rest where rest: "dropWhile (\<lambda>x. x \<noteq> d) cs = d # rest"
      by (metis (mono_tags, lifting) dropWhile_eq_Cons_conv neq_Nil_conv)
    have "cs = b @ d # rest" using b rest by (metis takeWhile_dropWhile_id)
    then have "c # cs = [] @ (d # b @ [d]) @ rest" using True by simp
    then have "sublist (d # b @ [d]) (c # cs)" unfolding sublist_def by blast
    moreover have "d \<notin> set b" using b by (auto dest: set_takeWhileD)
    ultimately show ?thesis using True b by simp
  next
    case False
    with Cons.prems have "re_search_delimited d cs = Some b" by auto
    with Cons.IH show ?thesis by (auto simp: sublist_Cons_right)
  qed
qed

lemma re_search_delimited_complete:
  "b \<noteq> [] \<Longrightarrow> d \<notin> set b \<Longrightarrow> sublist (d # b @ [d]) r \<Longrightarrow> re_search_delimited d r \<noteq> None"
proof (induction r)
  case Nil
  then show ?case by simp
next
  case (Cons c cs)
  from Cons.prems(3) consider "prefix (d # b @ [d]) (c # cs)" | "sublist (d # b @ [d]) cs"
    by (auto simp: sublist_Cons_right)
  then show ?case
  proof cases
    case 1
    then obtain rest where "c = d" and cs: "cs = b @ d # rest"
      by (auto simp: prefix_def)
    have "takeWhile (\<lambda>x. x \<noteq> d) cs = b" using cs Cons.prems(2)
      by (simp add: takeWhile_upto)
    moreover have "dropWhile (\<lambda>x. x \<noteq> d) cs = d # rest" using cs Cons.prems(2)
      by (simp add: dropWhile_upto)
    ultimately show ?thesis using \<open>c = d\<close> Cons.prems(1) by simp
  next
    case 2
    with Cons show ?thesis by auto
  qed
qed

section \<open>The event classifier\<close>

lemma scan_events_None:
  "scan_events tbl t = None \<longleftrightarrow> (\<forall>e\<in>set tbl. \<not> any_in (snd e) t)"
  by (induction tbl t rule: scan_events.induct) auto

lemma scan_events_first:
  "i < length tbl \<Longrightarrow> any_in (snd (tbl ! i)) t \<Longrightarrow> \<forall>j<i. \<not> any_in (snd (tbl ! j)) t
     \<Longrightarrow> scan_events tbl t = Some (fst (tbl ! i))"
proof (induction tbl t arbitrary: i rule: scan_events.induct)
  case (1 t)
  then show ?case by simp
next
  case (2 event kws rest t)
  show ?case
  proof (cases i)
    case 0
    with 2 show ?thesis by simp
  next
    case (Suc k)
    with 2 have "\<not> any_in kws t" by auto
    moreover from 2 Suc have "scan_events rest t = Some (fst (rest ! k))"
      by (intro 2(1)) auto
    ultimately show ?thesis using Suc by simp
  qed
qed

lemma scan_events_range:
  "scan_events tbl t = Some e \<Longrightarrow> e \<in> fst ` set tbl"
  by (induction tbl t rule: scan_events.induct) (auto split: if_splits)

lemma determine_event_range:
  "determine_event rule \<in> {''PreToolUse'', ''PostToolUse'', ''Stop'', ''Notification''}"
proof (cases "scan_events HOOK_EVENTS (lower rule)")
  case None
  then show ?thesis by (simp add: determine_event_def)
next
  case (Some e)
  then have "e \<in> fst ` set HOOK_EVENTS" by (rule scan_events_range)
  then have "e \<in> {''PreToolUse'', ''PostToolUse'', ''Stop'', ''Notification''}"
    by (simp add: HOOK_EVENTS_def)
  with Some show ?thesis by (simp add: determine_event_def)
qed

lemma determine_event_first:
  assumes "i < length HOOK_EVENTS"
    and "\<exists>kw\<in>set (snd (HOOK_EVENTS ! i)). sublist kw (lower rule)"
    and "\<forall>j<i. \<forall>kw\<in>set (snd (HOOK_EVENTS ! j)). \<not> sublist kw (lower rule)"
  shows "determine_event rule = fst (HOOK_EVENTS ! i)"
proof -
  have "scan_events HOOK_EVENTS (lower rule) = Some (fst (HOOK_EVENTS ! i))"
    using assms by (intro scan_events_first) (auto simp: any_in_iff)
  then show ?thesis by (simp add: determine_event_def)
qed

lemma determine_event_fallback:
  assumes "\<forall>e\<in>set HOOK_EVENTS. \<forall>kw\<in>set (snd e). \<not> sublist kw (lower rule)"
  shows "determine_event rule =
           (if \<exists>w\<in>{''edit'', ''modify'', ''save'', ''write''}. sublist w (lower rule)
            then ''PostToolUse'' else ''Stop'')"
proof -
  have "scan_events HOOK_EVENTS (lower rule) = None"
    using assms by (simp add: scan_events_None any_in_iff)
  then show ?thesis by (simp add: determine_event_def any_in_iff)
qed

lemma determine_event_before:
  assumes "sublist ''before'' (lower rule)"
  shows "determine_event rule = ''PreToolUse''"
proof -
  have "any_in (snd (HOOK_EVENTS ! 0)) (lower rule)"
    using assms by (simp add: HOOK_EVENTS_def any_in_iff)
  then have "scan_events HOOK_EVENTS (lower rule) = Some ''PreToolUse''"
    by (simp add: HOOK_EVENTS_def)
  then show ?thesis by (simp add: determine_event_def)
qed

text \<open>
  C4. Whatever the rule text, \<open>_determine_event\<close> returns one of the four event names;
  the table is scanned in its declared order (PreToolUse, PostToolUse, Stop,
  Notification) and the event returned is the first one that has a keyword occurring in
  the lower-cased text, so a text with both \<open>before\<close> and \<open>after\<close> is classified
  PreToolUse; when no keyword of the table occurs, the result is PostToolUse if one of
  \<open>edit\<close>, \<open>modify\<close>, \<open>save\<close>, \<open>write\<close> occurs and Stop otherwise.
\<close>

theorem determine_event_first_match:
  "determine_event rule \<in> {''PreToolUse'', ''PostToolUse'', ''Stop'', ''Notification''}
   \<and> map fst HOOK_EVENTS = [''PreToolUse'', ''PostToolUse'', ''Stop'', ''Notification'']
   \<and> (\<forall>i<length HOOK_EVENTS.
         (\<exists>kw\<in>set (snd (HOOK_EVENTS ! i)). sublist kw (lower rule)) \<and>
         (\<forall>j<i. \<forall>kw\<in>set (snd (HOOK_EVENTS ! j)). \<not> sublist kw (lower rule))
         \<longrightarrow> determine_event rule = fst (HOOK_EVENTS ! i))
   \<and> (sublist ''before'' (lower rule) \<and> sublist ''after'' (lower rule)
         \<longrightarrow> determine_event rule = ''PreToolUse'')
   \<and> ((\<forall>e\<in>set HOOK_EVENTS. \<forall>kw\<in>set (snd e). \<not> sublist kw (lower rule))
         \<longrightarrow> determine_event rule =
               (if \<exists>w\<in>{''edit'', ''modify'', ''save'', ''write''}. sublist w (lower rule)
                then ''PostToolUse'' else ''Stop''))"
proof (intro conjI allI impI)
  show "determine_event rule \<in> {''PreToolUse'', ''PostToolUse'', ''Stop'', ''Notification''}"
    by (rule determine_event_range)
  show "map fst HOOK_EVENTS = [''PreToolUse'', ''PostToolUse'', ''Stop'', ''Notification'']"
    by (simp add: HOOK_EVENTS_def)
next
  fix i
  assume "i < length HOOK_EVENTS"
    and "(\<exists>kw\<in>set (snd (HOOK_EVENTS ! i)). sublist kw (lower rule)) \<and>
         (\<forall>j<i. \<forall>kw\<in>set (snd (HOOK_EVENTS ! j)). \<not> sublist kw (lower rule))"
  then show "determine_event rule = fst (HOOK_EVENTS ! i)"
    using determine_event_first by blast
next
  assume "sublist ''before'' (lower rule) \<and> sublist ''after'' (lower rule)"
  then show "determine_event rule = ''PreToolUse''"
    using determine_event_before by blast
next
  assume "\<forall>e\<in>set HOOK_EVENTS. \<forall>kw\<in>set (snd e). \<not> sublist kw (lower rule)"
  then show "determine_event rule =
               (if \<exists>w\<in>{''edit'', ''modify'', ''save'', ''write''}. sublist w (lower rule)
                then ''PostToolUse'' else ''Stop'')"
    by (rule determine_event_fallback)
qed

text \<open>
  The theorem at four rules: one with \<open>before\<close> and \<open>after\<close>, one that only the
  second heuristic classifies, one that nothing matches, and one whose first matching
  event is the second of the table.
\<close>

theorem determine_event_first_match_witness:
  "sublist ''before'' (lower ''Lint before and after saving'')
   \<and> sublist ''after'' (lower ''Lint before and after saving'')
   \<and> determine_event ''Lint before and after saving'' = ''PreToolUse''
   \<and> \<not> (\<exists>e\<in>set HOOK_EVENTS. \<exists>kw\<in>set (snd e). sublist kw (lower ''Save the log''))
   \<and> determine_event ''Save the log'' = ''PostToolUse''
   \<and> \<not> (\<exists>e\<in>set HOOK_EVENTS. \<exists>kw\<in>set (snd e). sublist kw (lower ''xyzzy plugh''))
   \<and> determine_event ''xyzzy plugh'' = ''Stop''
   \<and> (1::nat) < length HOOK_EVENTS
   \<and> (\<exists>kw\<in>set (snd (HOOK_EVENTS ! 1)). sublist kw (lower ''Format the code AFTER editing''))
   \<and> \<not> (\<exists>j<1::nat. \<exists>kw\<in>set (snd (HOOK_EVENTS ! j)).
          sublist kw (lower ''Format the code AFTER editing''))
   \<and> determine_event ''Format the code AFTER editing'' = ''PostToolUse''"
proof -
  have l1: "lower ''Lint before and after saving'' = ''lint before and after saving''"
    by code_simp
  have l2: "lower ''Save the log'' = ''save the log''" by code_simp
  have l3: "lower ''xyzzy plugh'' = ''xyzzy plugh''" by code_simp
  have l4: "lower ''Format the code AFTER editing'' = ''format the code after editing''"
    by code_simp
  have a: "sublist ''before'' (lower ''Lint before and after saving'')
           \<and> sublist ''after'' (lower ''Lint before and after saving'')"
    unfolding l1 sublist_eval by simp
  have b: "\<forall>e\<in>set HOOK_EVENTS. \<forall>kw\<in>set (snd e). \<not> sublist kw (lower ''Save the log'')"
    unfolding l2 sublist_eval HOOK_EVENTS_def by simp
  have b': "\<exists>w\<in>{''edit'', ''modify'', ''save'', ''write''}. sublist w (lower ''Save the log'')"
    unfolding l2 sublist_eval by simp
  have c: "\<forall>e\<in>set HOOK_EVENTS. \<forall>kw\<in>set (snd e). \<not> sublist kw (lower ''xyzzy plugh'')"
    unfolding l3 sublist_eval HOOK_EVENTS_def by simp
  have c': "\<not> (\<exists>w\<in>{''edit'', ''modify'', ''save'', ''write''}. sublist w (lower ''xyzzy plugh''))"
    unfolding l3 sublist_eval by simp
  have d0: "(1::nat) < length HOOK_EVENTS" by (simp add: HOOK_EVENTS_def)
  have d1: "\<exists>kw\<in>set (snd (HOOK_EVENTS ! 1)).
              sublist kw (lower ''Format the code AFTER editing'')"
    unfolding l4 sublist_eval HOOK_EVENTS_def by simp
  have d2: "\<forall>j<1::nat. \<forall>kw\<in>set (snd (HOOK_EVENTS ! j)).
              \<not> sublist kw (lower ''Format the code AFTER editing'')"
    unfolding l4 sublist_eval HOOK_EVENTS_def by simp
  have d3: "fst (HOOK_EVENTS ! 1) = ''PostToolUse''" by (simp add: HOOK_EVENTS_def)
  from a determine_event_first_match [of "''Lint before and after saving''"]
  have ra: "determine_event ''Lint before and after saving'' = ''PreToolUse''" by blast
  from b b' determine_event_first_match [of "''Save the log''"]
  have rb: "determine_event ''Save the log'' = ''PostToolUse''" by presburger
  from c c' determine_event_first_match [of "''xyzzy plugh''"]
  have rc: "determine_event ''xyzzy plugh'' = ''Stop''" by presburger
  from d0 d1 d2 determine_event_first_match [of "''Format the code AFTER editing''"]
  have "determine_event ''Format the code AFTER editing'' = fst (HOOK_EVENTS ! 1)" by blast
  then have rd: "determine_event ''Format the code AFTER editing'' = ''PostToolUse''"
    using d3 by simp
  show ?thesis using a b c d0 d1 d2 ra rb rc rd by blast
qed

section \<open>The tool matcher\<close>

lemma unique_loop_fresh:
  "distinct ts \<Longrightarrow> set ts \<inter> set seen = {} \<Longrightarrow> unique_loop ts seen u = u @ ts"
  by (induction ts seen u rule: unique_loop.induct) auto

lemma group_hit_any_in: "group_hit t g = any_in (fst g) t"
  by (simp add: group_hit_def any_in_iff)

lemma matched_tools_distinct:
  "distinct (concat (map snd (filter P tool_groups)))"
  by (simp add: tool_groups_def)

lemma determine_tools_concat:
  "determine_tools rule = concat (map snd (filter (group_hit (lower rule)) tool_groups))"
proof -
  have "determine_tools rule =
          unique_loop (concat (map snd (filter (group_hit (lower rule)) tool_groups))) [] []"
    by (simp add: determine_tools_def tool_groups_def group_hit_any_in any_in_single Let_def)
  then show ?thesis
    by (simp add: unique_loop_fresh matched_tools_distinct)
qed

text \<open>
  C7. Whatever the rule text, \<open>_determine_tools\<close> returns a list without duplicates: the
  tools of the groups that are hit, each group deciding for itself, in the declared order
  of the groups (file, command, search, read, web, todo), so every tool stands where it
  first occurs. On \<open>Format Python files with black after editing\<close> the result is Edit,
  MultiEdit, Write, and a text that hits no group gives the empty list.
\<close>

theorem determine_tools_groups:
  "distinct (determine_tools rule)
   \<and> determine_tools rule = concat (map snd (filter (group_hit (lower rule)) tool_groups))
   \<and> determine_tools ''Format Python files with black after editing''
       = [''Edit'', ''MultiEdit'', ''Write'']
   \<and> ((\<forall>g\<in>set tool_groups. \<not> group_hit (lower rule) g) \<longrightarrow> determine_tools rule = [])"
proof -
  have ex: "determine_tools ''Format Python files with black after editing''
       = [''Edit'', ''MultiEdit'', ''Write'']" by code_simp
  have none: "(\<forall>g\<in>set tool_groups. \<not> group_hit (lower rule) g) \<longrightarrow> determine_tools rule = []"
    by (simp add: determine_tools_concat filter_False)
  show ?thesis using ex none
    by (simp add: determine_tools_concat matched_tools_distinct del: distinct_concat)
qed

text \<open>The theorem at a rule that hits no group, and at one that hits two.\<close>

theorem determine_tools_groups_witness:
  "\<not> (\<exists>g\<in>set tool_groups. group_hit (lower ''xyzzy plugh'') g)
   \<and> determine_tools ''xyzzy plugh'' = []
   \<and> filter (group_hit (lower ''Run grep on saved files'')) tool_groups
       = [tool_groups ! 0, tool_groups ! 1, tool_groups ! 2]
   \<and> determine_tools ''Run grep on saved files''
       = [''Edit'', ''MultiEdit'', ''Write'', ''Bash'', ''Grep'', ''Glob'']"
proof -
  have l1: "lower ''xyzzy plugh'' = ''xyzzy plugh''" by code_simp
  have l2: "lower ''Run grep on saved files'' = ''run grep on saved files''" by code_simp
  have a: "\<forall>g\<in>set tool_groups. \<not> group_hit (lower ''xyzzy plugh'') g"
    unfolding l1 group_hit_def sublist_eval tool_groups_def by simp
  have b: "filter (group_hit (lower ''Run grep on saved files'')) tool_groups
       = [tool_groups ! 0, tool_groups ! 1, tool_groups ! 2]"
    unfolding l2 group_hit_def sublist_eval tool_groups_def by simp
  from a determine_tools_groups [of "''xyzzy plugh''"]
  have ra: "determine_tools ''xyzzy plugh'' = []" by blast
  from determine_tools_groups [of "''Run grep on saved files''"]
  have "determine_tools ''Run grep on saved files''
          = concat (map snd (filter (group_hit (lower ''Run grep on saved files'')) tool_groups))"
    by blast
  then have rb: "determine_tools ''Run grep on saved files''
       = [''Edit'', ''MultiEdit'', ''Write'', ''Bash'', ''Grep'', ''Glob'']"
    unfolding b by (simp add: tool_groups_def)
  show ?thesis using a b ra rb by blast
qed

section \<open>The command extractor\<close>

lemma qualifies_iff: "qualifies q \<longleftrightarrow> (\<exists>c\<in>{CHR '' '', CHR ''/'', CHR ''-''}. c \<in> set q)"
  by (simp add: qualifies_def)

lemma phrase_holds_both: "phrase_holds t [[a, b]] = (py_in a t \<and> py_in b t)"
  by (simp add: phrase_holds_def sublist_eval)

lemma phrase_holds_one: "phrase_holds t [[a]] = py_in a t"
  by (simp add: phrase_holds_def sublist_eval)

lemma phrase_holds_either: "phrase_holds t [[a], [b]] = (py_in a t \<or> py_in b t)"
  by (simp add: phrase_holds_def sublist_eval)

lemma case_if_Some:
  "(case (if c then Some x else r) of Some y \<Rightarrow> Some y | None \<Rightarrow> X)
     = (if c then Some x else (case r of Some y \<Rightarrow> Some y | None \<Rightarrow> X))"
  by simp

lemma phrase_chain:
  "(if py_in ''black'' t \<and> py_in ''python'' t
        then Some ''black . --quiet 2>/dev/null || true''
      else if py_in ''prettier'' t
        then Some ''prettier --write . 2>/dev/null || true''
      else if py_in ''git status'' t
        then Some ''git status''
      else if py_in ''npm test'' t
        then Some (''npm test 2>/dev/null || echo '' @ [CHR 0x27] @ ''Tests need attention'' @ [CHR 0x27])
      else if py_in ''npm run lint'' t
        then Some ''npm run lint 2>/dev/null || true''
      else if py_in ''todo'' t \<and> py_in ''comment'' t
        then Some (''grep -r '' @ [CHR 0x27] @ ''TODO'' @ [CHR 0x27] @ '' . 2>/dev/null || echo ''
                   @ [CHR 0x27] @ ''No TODOs found'' @ [CHR 0x27])
      else if py_in ''secret'' t \<or> py_in ''credential'' t
        then Some (''git secrets --scan 2>/dev/null || echo '' @ [CHR 0x27]
                   @ ''No secrets found'' @ [CHR 0x27])
      else X)
   = (case phrase_lookup phrase_table t of Some c \<Rightarrow> Some c | None \<Rightarrow> X)"
  unfolding phrase_table_def phrase_lookup.simps phrase_holds_both phrase_holds_one
    phrase_holds_either case_if_Some option.case ..

lemma quote_step:
  "(if re_search_delimited (CHR 0x22) rule \<noteq> None
       \<and> qualifies (the (re_search_delimited (CHR 0x22) rule))
    then re_search_delimited (CHR 0x22) rule else Y)
   = (case qualifying_quote rule of Some q \<Rightarrow> Some q | None \<Rightarrow> Y)"
  by (cases "re_search_delimited (CHR 0x22) rule") (simp_all add: qualifying_quote_def qualifies_iff)

lemma extract_command_cases:
  "extract_command rule =
     (case re_search_delimited (CHR 0x60) rule of
        Some b \<Rightarrow> Some b
      | None \<Rightarrow>
          (case qualifying_quote rule of
             Some q \<Rightarrow> Some q
           | None \<Rightarrow>
               (case phrase_lookup phrase_table (lower rule) of
                  Some c \<Rightarrow> Some c
                | None \<Rightarrow>
                    (case re_search_verb False (lower rule) of
                       Some token \<Rightarrow> Some (token @ '' 2>/dev/null || true'')
                     | None \<Rightarrow> None))))"
  unfolding extract_command_def Let_def phrase_chain quote_step ..

lemma extract_command_refines: "extract_command rule = extract_command_spec rule"
  unfolding extract_command_cases extract_command_spec_def
  by (simp split: option.splits)

text \<open>
  C5. \<open>_extract_command\<close> is the specification's list of rules tried in strict order,
  the first that yields a command ending the search: a backtick-delimited run of the rule
  is returned as it stands whatever the later rules would say (so the rule with
  \<open>npm run build\<close> between backticks yields exactly that), then a double-quoted run with a
  space, slash or hyphen, then the phrase table (which gives the \<open>black\<close> command on
  \<open>Format Python files with black after editing\<close>), then the verb-object pattern; a rule
  on which all four fail yields none.
\<close>

theorem extract_command_priority:
  "extract_command rule = extract_command_spec rule
   \<and> (\<forall>b. re_search_delimited (CHR 0x60) rule = Some b \<longrightarrow>
          extract_command rule = Some b \<and> b \<noteq> [] \<and> CHR 0x60 \<notin> set b
          \<and> sublist (CHR 0x60 # b @ [CHR 0x60]) rule)
   \<and> extract_command (''Run '' @ [CHR 0x60] @ ''npm run build'' @ [CHR 0x60] @ '' after editing'')
       = Some ''npm run build''
   \<and> re_search_delimited (CHR 0x60) ''Format Python files with black after editing'' = None
   \<and> qualifying_quote ''Format Python files with black after editing'' = None
   \<and> phrase_lookup phrase_table (lower ''Format Python files with black after editing'')
       = Some ''black . --quiet 2>/dev/null || true''
   \<and> extract_command ''Format Python files with black after editing''
       = Some ''black . --quiet 2>/dev/null || true''
   \<and> (re_search_delimited (CHR 0x60) rule = None \<and> qualifying_quote rule = None
        \<and> phrase_lookup phrase_table (lower rule) = None
        \<and> re_search_verb False (lower rule) = None
        \<longrightarrow> extract_command rule = None)"
proof -
  have bt: "\<forall>b. re_search_delimited (CHR 0x60) rule = Some b \<longrightarrow>
          extract_command rule = Some b \<and> b \<noteq> [] \<and> CHR 0x60 \<notin> set b
          \<and> sublist (CHR 0x60 # b @ [CHR 0x60]) rule"
    using re_search_delimited_sound [of "CHR 0x60" rule]
    by (simp add: extract_command_cases)
  have e1: "extract_command (''Run '' @ [CHR 0x60] @ ''npm run build'' @ [CHR 0x60] @ '' after editing'')
       = Some ''npm run build''" by code_simp
  have e2: "re_search_delimited (CHR 0x60) ''Format Python files with black after editing'' = None"
    by code_simp
  have e3: "qualifying_quote ''Format Python files with black after editing'' = None"
    unfolding qualifying_quote_def by code_simp
  have e4: "extract_command ''Format Python files with black after editing''
       = Some ''black . --quiet 2>/dev/null || true''" by code_simp
  have l: "lower ''Format Python files with black after editing''
             = ''format python files with black after editing''" by code_simp
  have e5: "phrase_lookup phrase_table (lower ''Format Python files with black after editing'')
       = Some ''black . --quiet 2>/dev/null || true''"
    unfolding l phrase_table_def phrase_lookup.simps phrase_holds_both by simp
  have none: "re_search_delimited (CHR 0x60) rule = None \<and> qualifying_quote rule = None
        \<and> phrase_lookup phrase_table (lower rule) = None
        \<and> re_search_verb False (lower rule) = None
        \<longrightarrow> extract_command rule = None"
    by (simp add: extract_command_cases)
  show ?thesis
    by (intro conjI) (rule extract_command_refines bt e1 e2 e3 e4 e5 none)+
qed

text \<open>
  The theorem at a rule that no pattern matches, and at a rule where the backtick wins
  although the phrase table has an entry for its text.
\<close>

theorem extract_command_priority_witness:
  "re_search_delimited (CHR 0x60) ''xyzzy plugh'' = None
   \<and> qualifying_quote ''xyzzy plugh'' = None
   \<and> phrase_lookup phrase_table (lower ''xyzzy plugh'') = None
   \<and> re_search_verb False (lower ''xyzzy plugh'') = None
   \<and> extract_command ''xyzzy plugh'' = None
   \<and> re_search_delimited (CHR 0x60) (''Tidy with prettier: '' @ [CHR 0x60] @ ''npx prettier -c .'' @ [CHR 0x60])
       = Some ''npx prettier -c .''
   \<and> phrase_lookup phrase_table (lower (''Tidy with prettier: '' @ [CHR 0x60] @ ''npx prettier -c .'' @ [CHR 0x60]))
       = Some ''prettier --write . 2>/dev/null || true''
   \<and> extract_command (''Tidy with prettier: '' @ [CHR 0x60] @ ''npx prettier -c .'' @ [CHR 0x60])
       = Some ''npx prettier -c .''"
proof -
  have l: "lower ''xyzzy plugh'' = ''xyzzy plugh''" by code_simp
  have a1: "re_search_delimited (CHR 0x60) ''xyzzy plugh'' = None" by code_simp
  have a2: "qualifying_quote ''xyzzy plugh'' = None"
    unfolding qualifying_quote_def by code_simp
  have a3: "phrase_lookup phrase_table (lower ''xyzzy plugh'') = None"
    unfolding l phrase_table_def phrase_lookup.simps phrase_holds_both phrase_holds_one
      phrase_holds_either by simp
  have a4: "re_search_verb False (lower ''xyzzy plugh'') = None" by code_simp
  from a1 a2 a3 a4 extract_command_priority [of "''xyzzy plugh''"]
  have ra: "extract_command ''xyzzy plugh'' = None" by blast
  let ?r = "''Tidy with prettier: '' @ [CHR 0x60] @ ''npx prettier -c .'' @ [CHR 0x60]"
  have l2: "lower ?r = ''tidy with prettier: '' @ [CHR 0x60] @ ''npx prettier -c .'' @ [CHR 0x60]"
    by code_simp
  have b1: "re_search_delimited (CHR 0x60) ?r = Some ''npx prettier -c .''" by code_simp
  have b2: "phrase_lookup phrase_table (lower ?r) = Some ''prettier --write . 2>/dev/null || true''"
    unfolding l2 phrase_table_def phrase_lookup.simps phrase_holds_both phrase_holds_one
      phrase_holds_either by simp
  from b1 extract_command_priority [of ?r]
  have rb: "extract_command ?r = Some ''npx prettier -c .''" by blast
  show ?thesis using a1 a2 a3 a4 ra b1 b2 rb by blast
qed

section \<open>Rule conversion: facts\<close>

lemma length_strip: "length (strip s) \<le> length s"
proof -
  have "length (dropWhile is_space (rev (dropWhile is_space s)))
          \<le> length (rev (dropWhile is_space s))"
    by (rule length_dropWhile_le)
  then have "length (strip s) \<le> length (dropWhile is_space s)"
    by (simp add: strip_def)
  also have "\<dots> \<le> length s" by (rule length_dropWhile_le)
  finally show ?thesis .
qed

lemma strip_Nil: "strip [] = []"
  by (simp add: strip_def)

lemma rule_list_v2_ok:
  "\<forall>r\<in>set rs. length (strip r) \<le> MAX_RULE_LENGTH
     \<Longrightarrow> rule_list_v2 i rs = Inr (filter (\<lambda>r. r \<noteq> []) (map strip rs))"
  by (induction rs arbitrary: i) (auto simp: bounded_string_def)

lemma rule_list_v2_Inr:
  "rule_list_v2 i rs = Inr l \<Longrightarrow> l = filter (\<lambda>r. r \<noteq> []) (map strip rs)"
  by (induction rs arbitrary: i l)
     (auto simp: bounded_string_def split: if_splits sum.splits)

lemma convert_one_v2_converts:
  "converts r \<Longrightarrow>
     map cv_rule (st_converted (convert_one_v2 helpers_scope r st)) = map cv_rule (st_converted st) @ [r]
     \<and> st_failed (convert_one_v2 helpers_scope r st) = st_failed st"
  by (auto simp: converts_def convert_one_v2_def helpers_scope_def record_conversion_def
           bounded_string_def Let_def split: option.splits)

lemma convert_one_v2_fails:
  "\<not> converts r \<Longrightarrow>
     st_converted (convert_one_v2 helpers_scope r st) = st_converted st
     \<and> map fl_rule (st_failed (convert_one_v2 helpers_scope r st)) = map fl_rule (st_failed st) @ [r]"
  by (auto simp: converts_def convert_one_v2_def helpers_scope_def record_conversion_def
           bounded_string_def Let_def split: option.splits)

lemma convert_loop_v2_rules:
  "map cv_rule (st_converted (convert_loop_v2 helpers_scope rs st))
     = map cv_rule (st_converted st) @ filter converts rs
   \<and> map fl_rule (st_failed (convert_loop_v2 helpers_scope rs st))
     = map fl_rule (st_failed st) @ filter (\<lambda>r. \<not> converts r) rs"
proof (induction rs arbitrary: st)
  case Nil
  then show ?case by simp
next
  case (Cons r rs)
  show ?case
  proof (cases "converts r")
    case True
    with convert_one_v2_converts [OF True, of st] Cons [of "convert_one_v2 helpers_scope r st"]
    show ?thesis by simp
  next
    case False
    with convert_one_v2_fails [OF False, of st] Cons [of "convert_one_v2 helpers_scope r st"]
    show ?thesis by simp
  qed
qed

lemma overall_status_cases:
  assumes c: "map cv_rule (st_converted st) = filter converts rs"
    and f: "map fl_rule (st_failed st) = filter (\<lambda>r. \<not> converts r) rs"
    and ne: "rs \<noteq> []"
  shows "overall_status st =
           (if \<forall>r\<in>set rs. converts r then ''success''
            else if \<exists>r\<in>set rs. converts r then ''partial'' else ''error'')"
proof -
  have c': "st_converted st = [] \<longleftrightarrow> filter converts rs = []"
    using c by (metis map_is_Nil_conv)
  have f': "st_failed st = [] \<longleftrightarrow> filter (\<lambda>r. \<not> converts r) rs = []"
    using f by (metis map_is_Nil_conv)
  have ex: "\<exists>r. r \<in> set rs" using ne by (cases rs) auto
  show ?thesis
    unfolding overall_status_def c' f' filter_empty_conv using ex by auto
qed

lemma convert_rules_helpers_Inr:
  assumes "convert_rules_in helpers_scope rules = Inr reply"
  shows "candidates rules \<noteq> []
     \<and> map cv_rule (converted_rules reply) = filter converts (candidates rules)
     \<and> map fl_rule (failed_rules reply) = filter (\<lambda>r. \<not> converts r) (candidates rules)
     \<and> status reply =
         (if \<forall>r\<in>set (candidates rules). converts r then ''success''
          else if \<exists>r\<in>set (candidates rules). converts r then ''partial'' else ''error'')"
proof -
  from assms obtain rule_list where
    rl: "rule_list_v2 0 (re_split (strip rules)) = Inr rule_list" and ne: "rule_list \<noteq> []"
    and reply: "reply = \<lparr>status = overall_status (convert_loop_v2 helpers_scope rule_list initial_state),
                        hooks_config = hooks_config_of (convert_loop_v2 helpers_scope rule_list initial_state),
                        converted_rules = st_converted (convert_loop_v2 helpers_scope rule_list initial_state),
                        failed_rules = st_failed (convert_loop_v2 helpers_scope rule_list initial_state)\<rparr>"
    by (auto simp: convert_rules_in_def bounded_string_def Let_def split: if_splits sum.splits)
  from rl have cands: "rule_list = candidates rules"
    unfolding candidates_def by (rule rule_list_v2_Inr)
  let ?st = "convert_loop_v2 helpers_scope (candidates rules) initial_state"
  have c: "map cv_rule (st_converted ?st) = filter converts (candidates rules)"
    and f: "map fl_rule (st_failed ?st) = filter (\<lambda>r. \<not> converts r) (candidates rules)"
    using convert_loop_v2_rules [of "candidates rules" initial_state]
    by (simp_all add: initial_state_def)
  from ne cands have ne': "candidates rules \<noteq> []" by simp
  from overall_status_cases [OF c f ne'] c f ne' show ?thesis
    unfolding reply cands by simp
qed

lemma convert_rules_in_returns:
  assumes ne: "candidates rules \<noteq> []"
    and len: "length rules < 5000"
    and each: "\<forall>r\<in>set (candidates rules). length r \<le> 500"
  shows "\<exists>reply. convert_rules_in sc rules = Inr reply"
proof -
  have s: "strip rules \<noteq> []"
  proof
    assume "strip rules = []"
    then have "re_split (strip rules) = [[]]" by simp
    then have "candidates rules = []" by (simp add: candidates_def strip_Nil)
    with ne show False by simp
  qed
  have b: "bounded_string (strip rules) (MAX_RULE_LENGTH * 10) ''rules'' = Inr (strip rules)"
    using len length_strip [of rules] by (simp add: bounded_string_def MAX_RULE_LENGTH_def)
  have "\<forall>r\<in>set (re_split (strip rules)). length (strip r) \<le> MAX_RULE_LENGTH"
  proof
    fix r assume r: "r \<in> set (re_split (strip rules))"
    show "length (strip r) \<le> MAX_RULE_LENGTH"
    proof (cases "strip r = []")
      case True
      then show ?thesis by simp
    next
      case False
      with r have "strip r \<in> set (candidates rules)" by (auto simp: candidates_def)
      with each show ?thesis by (simp add: MAX_RULE_LENGTH_def)
    qed
  qed
  then have rl: "rule_list_v2 0 (re_split (strip rules)) = Inr (candidates rules)"
    unfolding candidates_def by (rule rule_list_v2_ok)
  show ?thesis
    using s len b rl ne by (simp add: convert_rules_in_def MAX_RULE_LENGTH_def Let_def)
qed

text \<open>
  rule2hook_mcp_server.py keeps no list of failures: with at least one candidate rule its
  reply says \<open>success\<close>, whether or not the rules were converted.
\<close>

lemma convert_rules_v1_status:
  "v1_status (convert_rules_v1 rules) = (if rule_list_v1 rules = [] then ''error'' else ''success'')"
  by (simp add: convert_rules_v1_def Let_def)

text \<open>
  With the three helpers in reach the loop does what the specification says of the rule
  converter: the converted rules are the candidates for which a command is found, the
  failed rules are the other candidates, and the status is \<open>success\<close> if every candidate
  is converted, \<open>partial\<close> if some are and some are not, \<open>error\<close> if none is.
\<close>

lemma convert_rules_helpers_reply:
  "convert_rules_in helpers_scope rules = Inr reply \<Longrightarrow>
     map cv_rule (converted_rules reply) = filter converts (candidates rules)
     \<and> map fl_rule (failed_rules reply) = filter (\<lambda>r. \<not> converts r) (candidates rules)
     \<and> status reply =
         (if \<forall>r\<in>set (candidates rules). converts r then ''success''
          else if \<exists>r\<in>set (candidates rules). converts r then ''partial'' else ''error'')"
  using convert_rules_helpers_Inr [of rules reply] by blast

lemma convert_rules_helpers_scenario:
  "convert_rules_in helpers_scope ''Format Python files after editing, xyzzy plugh'' =
       Inr \<lparr>status = ''partial'',
            hooks_config =
              JObj [(''hooks'', JObj [(''PostToolUse'',
                JArr [JObj [(''matcher'', JStr ''Edit|MultiEdit|Write''),
                            (''hooks'', JArr [JObj [(''type'', JStr ''command''),
                               (''command'', JStr ''python 2>/dev/null || true'')]])]])])],
            converted_rules =
              [\<lparr>cv_rule = ''Format Python files after editing'', cv_event = ''PostToolUse'',
                cv_tools = [''Edit'', ''MultiEdit'', ''Write''],
                cv_command = ''python 2>/dev/null || true''\<rparr>],
            failed_rules =
              [\<lparr>fl_rule = ''xyzzy plugh'',
                fl_error = ''Failed to parse rule '' @ [CHR 0x27] @ ''xyzzy plugh'' @ [CHR 0x27]
                           @ '': Could not determine command from rule''\<rparr>]\<rparr>"
  by code_simp

text \<open>
  In the scope of rule2hook_mcp_server_v2.py the first call of every turn raises
  \<open>NameError\<close>: no rule is converted, every candidate is recorded as failed, and the
  status of every reply is \<open>error\<close>.
\<close>

lemma convert_one_v2_module:
  "convert_one_v2 v2_module_scope r st =
     st\<lparr>st_failed := st_failed st
          @ [\<lparr>fl_rule = r,
              fl_error = ''Unexpected error: '' @ name_error_str ''_determine_event''\<rparr>]\<rparr>"
  by (simp add: convert_one_v2_def v2_module_scope_def)

lemma convert_loop_v2_module:
  "st_converted (convert_loop_v2 v2_module_scope rs st) = st_converted st
   \<and> st_hooks (convert_loop_v2 v2_module_scope rs st) = st_hooks st
   \<and> map fl_rule (st_failed (convert_loop_v2 v2_module_scope rs st))
       = map fl_rule (st_failed st) @ rs"
  by (induction rs arbitrary: st) (simp_all add: convert_one_v2_module)

lemma convert_rules_v2_always_error:
  assumes "convert_rules_v2 rules = Inr reply"
  shows "status reply = ''error'' \<and> converted_rules reply = []
         \<and> hooks_config reply = JObj [(''hooks'', JObj [])]
         \<and> map fl_rule (failed_rules reply) = candidates rules"
proof -
  from assms obtain rule_list where
    rl: "rule_list_v2 0 (re_split (strip rules)) = Inr rule_list"
    and reply: "reply = \<lparr>status = overall_status (convert_loop_v2 v2_module_scope rule_list initial_state),
                        hooks_config = hooks_config_of (convert_loop_v2 v2_module_scope rule_list initial_state),
                        converted_rules = st_converted (convert_loop_v2 v2_module_scope rule_list initial_state),
                        failed_rules = st_failed (convert_loop_v2 v2_module_scope rule_list initial_state)\<rparr>"
    by (auto simp: convert_rules_v2_def convert_rules_in_def bounded_string_def Let_def
             split: if_splits sum.splits)
  from rl have cands: "rule_list = candidates rules"
    unfolding candidates_def by (rule rule_list_v2_Inr)
  from convert_loop_v2_module [of rule_list initial_state] show ?thesis
    unfolding reply cands
    by (simp add: overall_status_def hooks_config_of_def initial_state_def)
qed

text \<open>
  C1. The batch \<open>Format Python files after editing, xyzzy plugh\<close> as the two modules run
  it. \<open>convert_rules\<close> of rule2hook_mcp_server_v2.py, which keeps the list of failures and
  computes the status, calls helpers that its module does not define: both rules are
  recorded as failed with the text of the \<open>NameError\<close>, nothing is converted and the
  status is \<open>error\<close>, not \<open>partial\<close>. \<open>convert_rules\<close> of rule2hook_mcp_server.py
  converts the first rule, drops the second without a record and answers \<open>success\<close>.
\<close>

theorem convert_rules_partial_batch_as_run:
  "convert_rules_v2 ''Format Python files after editing, xyzzy plugh'' =
     Inr \<lparr>status = ''error'',
          hooks_config = JObj [(''hooks'', JObj [])],
          converted_rules = [],
          failed_rules =
            [\<lparr>fl_rule = ''Format Python files after editing'',
              fl_error = ''Unexpected error: name '' @ [CHR 0x27] @ ''_determine_event''
                         @ [CHR 0x27] @ '' is not defined''\<rparr>,
             \<lparr>fl_rule = ''xyzzy plugh'',
              fl_error = ''Unexpected error: name '' @ [CHR 0x27] @ ''_determine_event''
                         @ [CHR 0x27] @ '' is not defined''\<rparr>]\<rparr>
   \<and> convert_rules_v1 ''Format Python files after editing, xyzzy plugh'' =
       Converted_v1 ''success''
         (JObj [(''hooks'', JObj [(''PostToolUse'',
            JArr [JObj [(''matcher'', JStr ''Edit|MultiEdit|Write''),
                        (''hooks'', JArr [JObj [(''type'', JStr ''command''),
                           (''command'', JStr ''python 2>/dev/null || true'')]])]])])])
         [\<lparr>cv_rule = ''Format Python files after editing'', cv_event = ''PostToolUse'',
           cv_tools = [''Edit'', ''MultiEdit'', ''Write''],
           cv_command = ''python 2>/dev/null || true''\<rparr>]"
  by (intro conjI; code_simp)

text \<open>
  C2. \<open>convert_rules\<close> of rule2hook_mcp_server.py on the single rule \<open>Format Python files
  with black after editing\<close>: the configuration of the reply has one PostToolUse group, at
  index 0, with the matcher \<open>Edit|MultiEdit|Write\<close> and a single hook entry of type
  \<open>command\<close> whose command contains \<open>black\<close>.
\<close>

theorem convert_rules_black_round_trip:
  "(\<exists>cfg convs group entry cmd.
      convert_rules_v1 ''Format Python files with black after editing''
        = Converted_v1 ''success'' cfg convs
      \<and> Option.bind (Option.bind (at_key ''hooks'' cfg) (at_key ''PostToolUse'')) (at_index 0)
          = Some group
      \<and> at_key ''matcher'' group = Some (JStr ''Edit|MultiEdit|Write'')
      \<and> at_key ''hooks'' group = Some (JArr [entry])
      \<and> at_key ''type'' entry = Some (JStr ''command'')
      \<and> at_key ''command'' entry = Some (JStr cmd)
      \<and> sublist ''black'' cmd)"
proof -
  let ?cfg = "JObj [(''hooks'', JObj [(''PostToolUse'',
                JArr [JObj [(''matcher'', JStr ''Edit|MultiEdit|Write''),
                            (''hooks'', JArr [JObj [(''type'', JStr ''command''),
                               (''command'', JStr ''black . --quiet 2>/dev/null || true'')]])]])])]"
  let ?convs = "[\<lparr>cv_rule = ''Format Python files with black after editing'',
                  cv_event = ''PostToolUse'', cv_tools = [''Edit'', ''MultiEdit'', ''Write''],
                  cv_command = ''black . --quiet 2>/dev/null || true''\<rparr>]"
  have v1: "convert_rules_v1 ''Format Python files with black after editing''
              = Converted_v1 ''success'' ?cfg ?convs"
    by code_simp
  have sub: "sublist ''black'' ''black . --quiet 2>/dev/null || true''"
    unfolding sublist_eval by simp
  show ?thesis
    unfolding v1 using sub by simp
qed

section \<open>The validator: what the traversal accumulates\<close>

lemma issues_add_issue [simp]: "issues (add_issue i st) = issues st @ [i]"
  by (simp add: add_issue_def)

lemma issues_add_warning [simp]: "issues (add_warning w st) = issues st"
  by (simp add: add_warning_def)

lemma validate_hook_issues:
  "validate_hook event i matcher j hook st = Inr st'
     \<Longrightarrow> issues st' = issues st @ hook_issues event i j hook"
  by (cases hook)
     (auto simp: validate_hook_def hook_issues_def Let_def split: if_splits sum.splits)

lemma validate_hook_list_issues:
  "validate_hook_list event i matcher j hook_list st = Inr st'
     \<Longrightarrow> issues st' = issues st @ hook_list_issues event i j hook_list"
proof (induction hook_list arbitrary: j st)
  case Nil
  then show ?case by simp
next
  case (Cons hook rest)
  then obtain st1 where 1: "validate_hook event i matcher j hook st = Inr st1"
    and 2: "validate_hook_list event i matcher (Suc j) rest st1 = Inr st'"
    by (auto split: sum.splits)
  from validate_hook_issues [OF 1] Cons.IH [OF 2] show ?case by simp
qed

lemma validate_group_issues:
  "validate_group event i hook_group st = Inr st'
     \<Longrightarrow> issues st' = issues st @ group_issues event i hook_group"
  by (cases hook_group)
     (auto simp: validate_group_def group_issues_def Let_def
           dest: validate_hook_list_issues split: option.splits json.splits)

lemma validate_groups_issues:
  "validate_groups event i groups st = Inr st'
     \<Longrightarrow> issues st' = issues st @ groups_issues event i groups"
proof (induction groups arbitrary: i st)
  case Nil
  then show ?case by simp
next
  case (Cons hook_group rest)
  then obtain st1 where 1: "validate_group event i hook_group st = Inr st1"
    and 2: "validate_groups event (Suc i) rest st1 = Inr st'"
    by (auto split: sum.splits)
  from validate_group_issues [OF 1] Cons.IH [OF 2] show ?case by simp
qed

lemma validate_event_issues:
  "validate_event event event_hooks st = Inr st'
     \<Longrightarrow> issues st' = issues st @ event_issues event event_hooks"
  by (cases event_hooks)
     (auto simp: validate_event_def event_issues_def Let_def dest: validate_groups_issues)

lemma validate_events_issues:
  "validate_events hooks st = Inr st'
     \<Longrightarrow> issues st' = issues st @ document_issues hooks"
proof (induction hooks arbitrary: st)
  case Nil
  then show ?case by (simp add: document_issues_def)
next
  case (Cons item rest)
  obtain event event_hooks where item: "item = (event, event_hooks)" by (cases item)
  from Cons.prems obtain st1 where 1: "validate_event event event_hooks st = Inr st1"
    and 2: "validate_events rest st1 = Inr st'"
    unfolding item by (auto split: sum.splits)
  from validate_event_issues [OF 1] Cons.IH [OF 2] show ?case
    by (simp add: document_issues_def item)
qed

text \<open>No exception on documents whose commands are text.\<close>

lemma validate_hook_returns:
  "text_command hook \<Longrightarrow> \<exists>st'. validate_hook event i matcher j hook st = Inr st'"
  by (cases hook)
     (auto simp: validate_hook_def text_command_def Let_def split: json.splits)

lemma validate_hook_list_returns:
  "list_all text_command hook_list
     \<Longrightarrow> \<exists>st'. validate_hook_list event i matcher j hook_list st = Inr st'"
proof (induction hook_list arbitrary: j st)
  case Nil
  then show ?case by simp
next
  case (Cons hook rest)
  then obtain st1 where "validate_hook event i matcher j hook st = Inr st1"
    using validate_hook_returns [of hook event i matcher j st] by auto
  with Cons show ?case by auto
qed

lemma validate_group_returns:
  "text_commands_group hook_group \<Longrightarrow> \<exists>st'. validate_group event i hook_group st = Inr st'"
  by (cases hook_group)
     (auto simp: validate_group_def text_commands_group_def Let_def
           intro: validate_hook_list_returns split: option.splits json.splits)

lemma validate_groups_returns:
  "list_all text_commands_group groups \<Longrightarrow> \<exists>st'. validate_groups event i groups st = Inr st'"
proof (induction groups arbitrary: i st)
  case Nil
  then show ?case by simp
next
  case (Cons hook_group rest)
  then obtain st1 where "validate_group event i hook_group st = Inr st1"
    using validate_group_returns [of hook_group event i st] by auto
  with Cons show ?case by auto
qed

lemma validate_events_returns:
  "text_commands hooks \<Longrightarrow> \<exists>st'. validate_events hooks st = Inr st'"
proof (induction hooks arbitrary: st)
  case Nil
  then show ?case by simp
next
  case (Cons item rest)
  obtain event event_hooks where item: "item = (event, event_hooks)" by (cases item)
  from Cons.prems have here:
    "case event_hooks of JArr groups \<Rightarrow> list_all text_commands_group groups | _ \<Rightarrow> True"
    and there: "text_commands rest"
    by (simp_all add: text_commands_def item)
  have "\<exists>st1. validate_event event event_hooks st = Inr st1"
    using here
    by (cases event_hooks) (auto simp: validate_event_def Let_def intro: validate_groups_returns)
  then obtain st1 where "validate_event event event_hooks st = Inr st1" ..
  with Cons.IH [OF there, of st1] show ?case by (simp add: item)
qed

section \<open>The status of a validation\<close>

lemma validate_hooks_top_level:
  "top_level file = Some hooks \<Longrightarrow>
     validate_hooks file =
       (case validate_events hooks
               \<lparr>issues = [], warnings = [], hook_count = 0, hooks_summary = []\<rparr> of
          Inl e \<Rightarrow> Inl e
        | Inr st \<Rightarrow> Inr (Report (if issues st = [] then ''success'' else ''error'') st))"
  by (auto simp: top_level_def validate_hooks_def
           split: path_state.splits json.splits option.splits)

lemma validate_hooks_no_top_level:
  "top_level file = None \<Longrightarrow> validate_hooks file = Inr reply
     \<Longrightarrow> reply_status reply = ''error'' \<and> reply_issues reply \<noteq> Some []"
  by (auto simp: top_level_def validate_hooks_def
           split: path_state.splits json.splits option.splits)

lemma validate_hooks_reply:
  assumes "top_level file = Some hooks" and "validate_hooks file = Inr reply"
  shows "reply_issues reply = Some (document_issues hooks)
         \<and> (reply_status reply = ''success'') = (document_issues hooks = [])"
proof -
  from assms obtain st where
    st: "validate_events hooks \<lparr>issues = [], warnings = [], hook_count = 0, hooks_summary = []\<rparr>
           = Inr st"
    and reply: "reply = Report (if issues st = [] then ''success'' else ''error'') st"
    by (auto simp: validate_hooks_top_level split: sum.splits)
  from validate_events_issues [OF st] have "issues st = document_issues hooks" by simp
  then show ?thesis by (simp add: reply)
qed

lemma reply_status_iff:
  assumes "validate_hooks file = Inr reply"
  shows "(reply_status reply = ''success'') = (reply_issues reply = Some [])"
proof (cases "top_level file")
  case None
  from validate_hooks_no_top_level [OF None assms] show ?thesis by simp
next
  case (Some hooks)
  from validate_hooks_reply [OF Some assms] show ?thesis by simp
qed

lemma validate_hooks_returns:
  assumes "top_level file = Some hooks" and "text_commands hooks"
  shows "\<exists>reply. validate_hooks file = Inr reply"
proof -
  from validate_events_returns [OF assms(2)] obtain st where
    "validate_events hooks \<lparr>issues = [], warnings = [], hook_count = 0, hooks_summary = []\<rparr>
       = Inr st" by blast
  then show ?thesis by (simp add: validate_hooks_top_level [OF assms(1)])
qed

lemma event_issues_not_array:
  "\<not> is_array event_hooks \<Longrightarrow> event_issues event event_hooks = [Event_not_array event]"
  by (cases event_hooks) (simp_all add: event_issues_def)

text \<open>
  C6. Whatever reply \<open>validate_hooks\<close> returns, its status is \<open>success\<close> exactly when
  its issues list is there and empty; the warnings play no part. For a document that passes
  the top-level structure checks the issues of the reply are those of the whole document,
  every event, group and entry contributing in turn (nothing stops the traversal), and a
  reply is returned whenever the commands of the document are text. An event mapped to an
  empty array contributes no issue; an event mapped to a value that is not an array
  contributes one.
\<close>

theorem validate_hooks_status:
  "(\<forall>reply. validate_hooks file = Inr reply \<longrightarrow>
      (reply_status reply = ''success'') = (reply_issues reply = Some []))
   \<and> (\<forall>hooks. top_level file = Some hooks \<longrightarrow>
        (\<forall>reply. validate_hooks file = Inr reply \<longrightarrow>
           reply_issues reply = Some (document_issues hooks)
           \<and> (reply_status reply = ''success'') = (document_issues hooks = []))
        \<and> (text_commands hooks \<longrightarrow> (\<exists>reply. validate_hooks file = Inr reply)))
   \<and> event_issues event (JArr []) = []
   \<and> (\<not> is_array event_hooks \<longrightarrow> event_issues event event_hooks = [Event_not_array event])"
proof (intro conjI allI impI)
  fix reply assume "validate_hooks file = Inr reply"
  then show "(reply_status reply = ''success'') = (reply_issues reply = Some [])"
    by (rule reply_status_iff)
next
  fix hooks reply
  assume "top_level file = Some hooks" and "validate_hooks file = Inr reply"
  then have *: "reply_issues reply = Some (document_issues hooks)
         \<and> (reply_status reply = ''success'') = (document_issues hooks = [])"
    by (rule validate_hooks_reply)
  from * show "reply_issues reply = Some (document_issues hooks)" ..
  from * show "(reply_status reply = ''success'') = (document_issues hooks = [])" ..
next
  fix hooks assume "top_level file = Some hooks" and "text_commands hooks"
  then show "\<exists>reply. validate_hooks file = Inr reply" by (rule validate_hooks_returns)
next
  show "event_issues event (JArr []) = []" by (simp add: event_issues_def)
next
  assume "\<not> is_array event_hooks"
  then show "event_issues event event_hooks = [Event_not_array event]"
    by (rule event_issues_not_array)
qed

text \<open>
  The theorem at a document with an empty event and an unknown event whose hook has an
  unexpected type (two warnings, no issue, status \<open>success\<close>), and at a document whose
  event is mapped to a string.
\<close>

theorem validate_hooks_status_witness:
  "top_level (Parsed (JObj [(''hooks'', JObj
      [(''PostToolUse'', JArr []),
       (''Later'', JArr [JObj [(''hooks'', JArr [JObj [(''type'', JStr ''shell''),
                                                      (''command'', JStr ''ls'')]])]])])]))
     = Some [(''PostToolUse'', JArr []),
             (''Later'', JArr [JObj [(''hooks'', JArr [JObj [(''type'', JStr ''shell''),
                                                            (''command'', JStr ''ls'')]])]])]
   \<and> text_commands
        [(''PostToolUse'', JArr []),
         (''Later'', JArr [JObj [(''hooks'', JArr [JObj [(''type'', JStr ''shell''),
                                                        (''command'', JStr ''ls'')]])]])]
   \<and> (\<exists>st. validate_hooks (Parsed (JObj [(''hooks'', JObj
          [(''PostToolUse'', JArr []),
           (''Later'', JArr [JObj [(''hooks'', JArr [JObj [(''type'', JStr ''shell''),
                                                          (''command'', JStr ''ls'')]])]])])]))
         = Inr (Report ''success'' st) \<and> issues st = [] \<and> length (warnings st) = 2)
   \<and> \<not> is_array (JStr ''not-an-array'')
   \<and> event_issues ''PostToolUse'' (JStr ''not-an-array'') = [Event_not_array ''PostToolUse'']
   \<and> top_level (Parsed (JObj [(''hooks'', JObj [(''PostToolUse'', JStr ''not-an-array'')])]))
       = Some [(''PostToolUse'', JStr ''not-an-array'')]
   \<and> (\<exists>reply. validate_hooks
                 (Parsed (JObj [(''hooks'', JObj [(''PostToolUse'', JStr ''not-an-array'')])]))
               = Inr reply
        \<and> reply_status reply = ''error''
        \<and> reply_issues reply = Some [Event_not_array ''PostToolUse''])"
proof -
  let ?hooks = "[(''PostToolUse'', JArr []),
             (''Later'', JArr [JObj [(''hooks'', JArr [JObj [(''type'', JStr ''shell''),
                                                            (''command'', JStr ''ls'')]])]])]"
  let ?file = "Parsed (JObj [(''hooks'', JObj ?hooks)])"
  let ?hooks2 = "[(''PostToolUse'', JStr ''not-an-array'')]"
  let ?file2 = "Parsed (JObj [(''hooks'', JObj ?hooks2)])"
  have t: "top_level ?file = Some ?hooks" by (simp add: top_level_def)
  have tc: "text_commands ?hooks"
    by (simp add: text_commands_def text_commands_group_def text_command_def dict_get_def)
  have ev: "validate_hooks ?file =
              Inr (Report ''success''
                \<lparr>issues = [],
                 warnings = [Unknown_event ''Later'', Unexpected_type ''Later'' 0 0 (JStr ''shell'')],
                 hook_count = 1,
                 hooks_summary = [\<lparr>sm_event = ''Later'', sm_matcher = JStr ''All tools'',
                                   sm_command = JStr ''ls''\<rparr>]\<rparr>)"
    by code_simp
  from t tc validate_hooks_status [of ?file] obtain reply where r: "validate_hooks ?file = Inr reply"
    by blast
  have a: "\<exists>st. validate_hooks ?file = Inr (Report ''success'' st) \<and> issues st = []
             \<and> length (warnings st) = 2"
    unfolding ev by simp
  have na: "\<not> is_array (JStr ''not-an-array'')" by simp
  from na validate_hooks_status [of ?file2 "''PostToolUse''" "JStr ''not-an-array''"]
  have ei: "event_issues ''PostToolUse'' (JStr ''not-an-array'') = [Event_not_array ''PostToolUse'']"
    by blast
  have t2: "top_level ?file2 = Some ?hooks2" by (simp add: top_level_def)
  have ev2: "validate_hooks ?file2 =
               Inr (Report ''error''
                 \<lparr>issues = [Event_not_array ''PostToolUse''], warnings = [], hook_count = 0,
                  hooks_summary = []\<rparr>)"
    by code_simp
  have b: "\<exists>reply. validate_hooks ?file2 = Inr reply
        \<and> reply_status reply = ''error''
        \<and> reply_issues reply = Some [Event_not_array ''PostToolUse'']"
    unfolding ev2 by simp
  show ?thesis
    by (intro conjI) (rule t tc a na ei t2 b)+
qed

section \<open>Hook entries without a type\<close>

lemma validate_hook_untyped_warning:
  assumes "map_of h ''type'' = None"
    and "validate_hook event i matcher j (JObj h) st = Inr st'"
  shows "warnings st' = warnings st @ [Unexpected_type event i j JNull]"
  using assms
  by (auto simp: validate_hook_def dict_get_def add_warning_def add_issue_def Let_def
           split: if_splits sum.splits)

lemma validate_hook_untyped_counted:
  assumes "map_of h ''type'' = None"
    and "map_of h ''command'' = Some (JStr c)" and "c \<noteq> []"
  shows "validate_hook event i matcher j (JObj h) st =
           Inr (st\<lparr>warnings := warnings st @ [Unexpected_type event i j JNull],
                   hook_count := hook_count st + 1,
                   hooks_summary := hooks_summary st
                     @ [\<lparr>sm_event = event,
                         sm_matcher = (if truthy matcher then matcher else JStr ''All tools''),
                         sm_command = JStr (if length c > 50 then take 50 c @ ''...'' else c)\<rparr>]\<rparr>)"
  using assms
  by (simp add: validate_hook_def dict_get_def add_warning_def Let_def)

text \<open>
  C10. A hook entry without a \<open>type\<close> key gets the type warning, with \<open>None\<close> as the
  value found: the warning is recorded whenever the entry is validated, and when the
  entry has a non-empty command string it is counted in \<open>total_hooks\<close> and added to the
  summary, with no issue. The last part shows a whole document with one such entry.
\<close>

theorem untyped_hook_warned_and_counted:
  "map_of h ''type'' = None \<longrightarrow>
     (\<forall>st'. validate_hook event i matcher j (JObj h) st = Inr st' \<longrightarrow>
        warnings st' = warnings st @ [Unexpected_type event i j JNull])
     \<and> (\<forall>c. map_of h ''command'' = Some (JStr c) \<and> c \<noteq> [] \<longrightarrow>
          validate_hook event i matcher j (JObj h) st =
            Inr (st\<lparr>warnings := warnings st @ [Unexpected_type event i j JNull],
                    hook_count := hook_count st + 1,
                    hooks_summary := hooks_summary st
                      @ [\<lparr>sm_event = event,
                          sm_matcher = (if truthy matcher then matcher else JStr ''All tools''),
                          sm_command = JStr (if length c > 50 then take 50 c @ ''...'' else c)\<rparr>]\<rparr>))
     \<and> validate_hooks (Parsed (JObj [(''hooks'', JObj [(''Stop'',
            JArr [JObj [(''hooks'', JArr [JObj [(''command'', JStr ''git status'')]])]])])]))
         = Inr (Report ''success''
             \<lparr>issues = [], warnings = [Unexpected_type ''Stop'' 0 0 JNull], hook_count = 1,
              hooks_summary = [\<lparr>sm_event = ''Stop'', sm_matcher = JStr ''All tools'',
                                sm_command = JStr ''git status''\<rparr>]\<rparr>)"
proof (intro impI conjI allI)
  fix st' assume "map_of h ''type'' = None"
    and "validate_hook event i matcher j (JObj h) st = Inr st'"
  then show "warnings st' = warnings st @ [Unexpected_type event i j JNull]"
    by (rule validate_hook_untyped_warning)
next
  fix c assume "map_of h ''type'' = None" and "map_of h ''command'' = Some (JStr c) \<and> c \<noteq> []"
  then show "validate_hook event i matcher j (JObj h) st =
            Inr (st\<lparr>warnings := warnings st @ [Unexpected_type event i j JNull],
                    hook_count := hook_count st + 1,
                    hooks_summary := hooks_summary st
                      @ [\<lparr>sm_event = event,
                          sm_matcher = (if truthy matcher then matcher else JStr ''All tools''),
                          sm_command = JStr (if length c > 50 then take 50 c @ ''...'' else c)\<rparr>]\<rparr>)"
    using validate_hook_untyped_counted by blast
next
  show "validate_hooks (Parsed (JObj [(''hooks'', JObj [(''Stop'',
            JArr [JObj [(''hooks'', JArr [JObj [(''command'', JStr ''git status'')]])]])])]))
         = Inr (Report ''success''
             \<lparr>issues = [], warnings = [Unexpected_type ''Stop'' 0 0 JNull], hook_count = 1,
              hooks_summary = [\<lparr>sm_event = ''Stop'', sm_matcher = JStr ''All tools'',
                                sm_command = JStr ''git status''\<rparr>]\<rparr>)"
    by code_simp
qed

text \<open>The theorem at the hook entry of that document.\<close>

theorem untyped_hook_warned_and_counted_witness:
  "map_of [(''command'', JStr ''git status'')] ''type'' = None
   \<and> map_of [(''command'', JStr ''git status'')] ''command'' = Some (JStr ''git status'')
   \<and> validate_hook ''Stop'' 0 (JStr []) 0 (JObj [(''command'', JStr ''git status'')])
        \<lparr>issues = [], warnings = [], hook_count = 0, hooks_summary = []\<rparr>
       = Inr \<lparr>issues = [], warnings = [Unexpected_type ''Stop'' 0 0 JNull], hook_count = 1,
              hooks_summary = [\<lparr>sm_event = ''Stop'', sm_matcher = JStr ''All tools'',
                                sm_command = JStr ''git status''\<rparr>]\<rparr>"
proof -
  have a: "map_of [(''command'', JStr ''git status'')] ''type'' = None" by simp
  have b: "map_of [(''command'', JStr ''git status'')] ''command'' = Some (JStr ''git status'')"
    by simp
  have c: "''git status'' \<noteq> []" by simp
  from a b c untyped_hook_warned_and_counted
    [of "[(''command'', JStr ''git status'')]" "''Stop''" 0 "JStr []" 0
        "\<lparr>issues = [], warnings = [], hook_count = 0, hooks_summary = []\<rparr>"]
  have "validate_hook ''Stop'' 0 (JStr []) 0 (JObj [(''command'', JStr ''git status'')])
        \<lparr>issues = [], warnings = [], hook_count = 0, hooks_summary = []\<rparr>
       = Inr (\<lparr>issues = [], warnings = [], hook_count = 0, hooks_summary = []\<rparr>
               \<lparr>warnings := warnings \<lparr>issues = [], warnings = [], hook_count = 0, hooks_summary = []\<rparr>
                              @ [Unexpected_type ''Stop'' 0 0 JNull],
                hook_count := hook_count \<lparr>issues = [], warnings = [], hook_count = 0, hooks_summary = []\<rparr> + 1,
                hooks_summary := hooks_summary \<lparr>issues = [], warnings = [], hook_count = 0, hooks_summary = []\<rparr>
                  @ [\<lparr>sm_event = ''Stop'',
                      sm_matcher = (if truthy (JStr []) then JStr [] else JStr ''All tools''),
                      sm_command = JStr (if length ''git status'' > 50
                                         then take 50 ''git status'' @ ''...'' else ''git status'')\<rparr>]\<rparr>)"
    by blast
  then have r: "validate_hook ''Stop'' 0 (JStr []) 0 (JObj [(''command'', JStr ''git status'')])
        \<lparr>issues = [], warnings = [], hook_count = 0, hooks_summary = []\<rparr>
       = Inr \<lparr>issues = [], warnings = [Unexpected_type ''Stop'' 0 0 JNull], hook_count = 1,
              hooks_summary = [\<lparr>sm_event = ''Stop'', sm_matcher = JStr ''All tools'',
                                sm_command = JStr ''git status''\<rparr>]\<rparr>"
    by simp
  show ?thesis by (intro conjI) (rule a b r)+
qed

section \<open>The validator script\<close>
























section \<open>The conflict detector on documents of the data model\<close>

lemma map_of_dict_set: "map_of (dict_set k v m) k' = (if k' = k then Some v else map_of m k')"
  by (induction m) auto

lemma first_command_shaped:
  "is_hook_group (JObj g) \<Longrightarrow> first_command g = Inr (first_command_of (JObj g))"
  by (auto simp: is_hook_group_def first_command_def first_command_of_def
           split: option.splits json.splits list.splits)

lemma matcher_shaped:
  "is_hook_group (JObj g) \<Longrightarrow> dict_get g ''matcher'' (JStr []) = JStr (matcher_of (JObj g))"
  by (auto simp: is_hook_group_def dict_get_def matcher_of_def split: option.splits json.splits)

lemma is_hook_group_obj: "is_hook_group hook_group \<Longrightarrow> \<exists>g. hook_group = JObj g"
  by (cases hook_group) (simp_all add: is_hook_group_def)

lemma index_groups_shaped:
  "list_all is_hook_group groups \<Longrightarrow>
     \<exists>ms. index_groups groups acc = Inr ms
       \<and> (\<forall>m. map_of ms (JStr m) =
             (if m \<noteq> [] \<and> (\<exists>g\<in>set groups. matcher_of g = m)
              then Some (first_command_of (last (filter (\<lambda>g. matcher_of g = m) groups)))
              else map_of acc (JStr m)))"
proof (induction groups arbitrary: acc)
  case Nil
  then show ?case by simp
next
  case (Cons hook_group rest)
  from Cons.prems have shaped: "is_hook_group hook_group" and rest: "list_all is_hook_group rest"
    by simp_all
  from shaped obtain g where g: "hook_group = JObj g" using is_hook_group_obj by blast
  note m = matcher_shaped [OF shaped [unfolded g]]
  note fc = first_command_shaped [OF shaped [unfolded g]]
  show ?case
  proof (cases "matcher_of (JObj g) = []")
    case True
    from Cons.IH [OF rest, of acc] obtain ms where
      ms: "index_groups rest acc = Inr ms"
      and look: "\<forall>m. map_of ms (JStr m) =
             (if m \<noteq> [] \<and> (\<exists>g\<in>set rest. matcher_of g = m)
              then Some (first_command_of (last (filter (\<lambda>g. matcher_of g = m) rest)))
              else map_of acc (JStr m))" by blast
    have "index_groups (hook_group # rest) acc = Inr ms"
      using True ms by (simp add: g m)
    moreover have "\<forall>m. map_of ms (JStr m) =
             (if m \<noteq> [] \<and> (\<exists>g\<in>set (hook_group # rest). matcher_of g = m)
              then Some (first_command_of
                     (last (filter (\<lambda>g. matcher_of g = m) (hook_group # rest))))
              else map_of acc (JStr m))"
      using True look by (auto simp: g)
    ultimately show ?thesis by blast
  next
    case False
    let ?acc = "dict_set (JStr (matcher_of (JObj g))) (first_command_of (JObj g)) acc"
    from Cons.IH [OF rest, of ?acc] obtain ms where
      ms: "index_groups rest ?acc = Inr ms"
      and look: "\<forall>m. map_of ms (JStr m) =
             (if m \<noteq> [] \<and> (\<exists>g\<in>set rest. matcher_of g = m)
              then Some (first_command_of (last (filter (\<lambda>g. matcher_of g = m) rest)))
              else map_of ?acc (JStr m))" by blast
    have "index_groups (hook_group # rest) acc = Inr ms"
      using False ms by (simp add: g m fc)
    moreover have "\<forall>m. map_of ms (JStr m) =
             (if m \<noteq> [] \<and> (\<exists>g\<in>set (hook_group # rest). matcher_of g = m)
              then Some (first_command_of
                     (last (filter (\<lambda>g. matcher_of g = m) (hook_group # rest))))
              else map_of acc (JStr m))"
    proof
      fix m
      show "map_of ms (JStr m) =
             (if m \<noteq> [] \<and> (\<exists>g\<in>set (hook_group # rest). matcher_of g = m)
              then Some (first_command_of
                     (last (filter (\<lambda>g. matcher_of g = m) (hook_group # rest))))
              else map_of acc (JStr m))"
      proof (cases "\<exists>g\<in>set rest. matcher_of g = m")
        case True
        then have "filter (\<lambda>g. matcher_of g = m) rest \<noteq> []"
          by (simp add: filter_empty_conv)
        with True look False show ?thesis by (auto simp: g map_of_dict_set)
      next
        case no: False
        then have "filter (\<lambda>g. matcher_of g = m) rest = []"
          by (simp add: filter_empty_conv)
        with no look False show ?thesis
          by (auto simp: g map_of_dict_set)
      qed
    qed
    ultimately show ?thesis by blast
  qed
qed

lemma index_of_shaped:
  assumes "list_all is_hook_group groups"
  shows "index_groups groups [] = Inr (index_of groups)"
    and "map_of (index_of groups) (JStr m) =
           (if m \<noteq> [] \<and> (\<exists>g\<in>set groups. matcher_of g = m)
            then Some (first_command_of (last (filter (\<lambda>g. matcher_of g = m) groups)))
            else None)"
proof -
  from index_groups_shaped [OF assms, of "[]"] obtain ms where
    ms: "index_groups groups [] = Inr ms"
    and look: "\<forall>m. map_of ms (JStr m) =
             (if m \<noteq> [] \<and> (\<exists>g\<in>set groups. matcher_of g = m)
              then Some (first_command_of (last (filter (\<lambda>g. matcher_of g = m) groups)))
              else map_of [] (JStr m))" by blast
  from ms have eq: "index_of groups = ms" by (simp add: index_of_def)
  from ms eq show "index_groups groups [] = Inr (index_of groups)" by simp
  from look eq show "map_of (index_of groups) (JStr m) =
           (if m \<noteq> [] \<and> (\<exists>g\<in>set groups. matcher_of g = m)
            then Some (first_command_of (last (filter (\<lambda>g. matcher_of g = m) groups)))
            else None)" by simp
qed

lemma is_event_entry_array:
  "is_event_entry (event, v) \<Longrightarrow> v = JArr (groups_in v) \<and> list_all is_hook_group (groups_in v)"
  by (cases v) (simp_all add: is_event_entry_def groups_in_def)

lemma index_events_shaped:
  "list_all is_event_entry hooks \<Longrightarrow> distinct (map fst hooks) \<Longrightarrow>
     \<exists>em. index_events hooks em0 = Inr em
       \<and> (\<forall>e. map_of em e =
             (case map_of hooks e of
                Some v \<Rightarrow> Some (index_of (groups_in v))
              | None \<Rightarrow> map_of em0 e))"
proof (induction hooks arbitrary: em0)
  case Nil
  then show ?case by simp
next
  case (Cons item rest)
  obtain event v where item: "item = (event, v)" by (cases item)
  from Cons.prems have entry: "is_event_entry (event, v)"
    and rest: "list_all is_event_entry rest"
    and fresh: "event \<notin> fst ` set rest" and dist: "distinct (map fst rest)"
    by (simp_all add: item)
  from is_event_entry_array [OF entry] have v: "v = JArr (groups_in v)"
    and shaped: "list_all is_hook_group (groups_in v)" by simp_all
  have it: "py_iter v = Inr (groups_in v)" by (subst v) simp
  note ix = index_of_shaped(1) [OF shaped]
  let ?em1 = "dict_set event (index_of (groups_in v)) em0"
  from Cons.IH [OF rest dist, of ?em1] obtain em where
    em: "index_events rest ?em1 = Inr em"
    and look: "\<forall>e. map_of em e =
             (case map_of rest e of
                Some v \<Rightarrow> Some (index_of (groups_in v))
              | None \<Rightarrow> map_of ?em1 e)" by blast
  have "index_events (item # rest) em0 = Inr em"
    using em by (simp add: item it ix)
  moreover have "\<forall>e. map_of em e =
             (case map_of (item # rest) e of
                Some v \<Rightarrow> Some (index_of (groups_in v))
              | None \<Rightarrow> map_of em0 e)"
  proof
    fix e
    from fresh have none: "map_of rest event = None"
      by (simp add: map_of_eq_None_iff)
    show "map_of em e =
             (case map_of (item # rest) e of
                Some v \<Rightarrow> Some (index_of (groups_in v))
              | None \<Rightarrow> map_of em0 e)"
      using look none by (auto simp: item map_of_dict_set split: option.splits)
  qed
  ultimately show ?case by blast
qed

lemma check_groups_shaped:
  "list_all is_hook_group groups \<Longrightarrow>
     check_groups event ms groups acc =
       Inr (acc @ concat (map (\<lambda>g.
              if matcher_of g \<noteq> []
              then (case map_of ms (JStr (matcher_of g)) of
                      Some existing_command \<Rightarrow>
                        [\<lparr>cf_event = event, cf_matcher = JStr (matcher_of g),
                          cf_existing_command = existing_command,
                          cf_new_command = first_command_of g\<rparr>]
                    | None \<Rightarrow> [])
              else []) groups))"
proof (induction groups arbitrary: acc)
  case Nil
  then show ?case by simp
next
  case (Cons hook_group rest)
  from Cons.prems have shaped: "is_hook_group hook_group" and rest: "list_all is_hook_group rest"
    by simp_all
  from shaped obtain g where g: "hook_group = JObj g" using is_hook_group_obj by blast
  note m = matcher_shaped [OF shaped [unfolded g]]
  note fc = first_command_shaped [OF shaped [unfolded g]]
  show ?case
    by (simp add: g m fc Cons.IH [OF rest] split: option.splits)
qed

lemma check_events_shaped:
  "list_all is_event_entry hooks \<Longrightarrow>
     check_events em hooks acc =
       Inr (acc @ concat (map (\<lambda>item.
              case map_of em (fst item) of
                None \<Rightarrow> []
              | Some ms \<Rightarrow>
                  concat (map (\<lambda>g.
                    if matcher_of g \<noteq> []
                    then (case map_of ms (JStr (matcher_of g)) of
                            Some existing_command \<Rightarrow>
                              [\<lparr>cf_event = fst item, cf_matcher = JStr (matcher_of g),
                                cf_existing_command = existing_command,
                                cf_new_command = first_command_of g\<rparr>]
                          | None \<Rightarrow> [])
                    else []) (groups_in (snd item)))) hooks))"
proof (induction hooks arbitrary: acc)
  case Nil
  then show ?case by simp
next
  case (Cons item rest)
  obtain event v where item: "item = (event, v)" by (cases item)
  from Cons.prems have entry: "is_event_entry (event, v)"
    and rest: "list_all is_event_entry rest"
    by (simp_all add: item)
  from is_event_entry_array [OF entry] have v: "v = JArr (groups_in v)"
    and shaped: "list_all is_hook_group (groups_in v)" by simp_all
  have it: "py_iter v = Inr (groups_in v)" by (subst v) simp
  show ?case
    by (simp add: item it check_groups_shaped [OF shaped] Cons.IH [OF rest]
             split: option.splits cong: if_cong option.case_cong)
qed

lemma concat_map_if: "concat (map (\<lambda>x. if P x then [f x] else []) xs) = map f (filter P xs)"
  by (induction xs) auto

lemma hooks_document_parts:
  assumes "is_hooks_document config"
  shows "hooks_of config = Inr (JObj (hooks_items config))"
    and "distinct (map fst (hooks_items config))"
    and "list_all is_event_entry (hooks_items config)"
  using assms
  by (auto simp: is_hooks_document_def hooks_of_def hooks_items_def dict_get_def
           split: json.splits option.splits)

lemma event_conflicts_shaped:
  assumes ex: "list_all is_event_entry (hooks_items existing)"
    and em: "\<forall>e. map_of em e =
               (case map_of (hooks_items existing) e of
                  Some v \<Rightarrow> Some (index_of (groups_in v))
                | None \<Rightarrow> None)"
  shows "(case map_of em event of
            None \<Rightarrow> []
          | Some ms \<Rightarrow>
              concat (map (\<lambda>g.
                if matcher_of g \<noteq> []
                then (case map_of ms (JStr (matcher_of g)) of
                        Some existing_command \<Rightarrow>
                          [\<lparr>cf_event = event, cf_matcher = JStr (matcher_of g),
                            cf_existing_command = existing_command,
                            cf_new_command = first_command_of g\<rparr>]
                      | None \<Rightarrow> [])
                else []) groups))
         = map (conflict_for existing event) (filter (conflicts_with existing event) groups)"
proof (cases "map_of (hooks_items existing) event")
  case None
  then have "map_of em event = None" using em by simp
  moreover from None have "groups_under existing event = []" by (simp add: groups_under_def)
  then have "filter (conflicts_with existing event) groups = []"
    by (simp add: conflicts_with_def)
  ultimately show ?thesis by simp
next
  case (Some v)
  then have m: "map_of em event = Some (index_of (groups_in v))" using em by simp
  from Some have under: "groups_under existing event = groups_in v"
    by (simp add: groups_under_def)
  from Some have "(event, v) \<in> set (hooks_items existing)" by (rule map_of_SomeD)
  with ex have "is_event_entry (event, v)" by (simp add: list_all_iff)
  then have shaped: "list_all is_hook_group (groups_in v)"
    using is_event_entry_array by blast
  note look = index_of_shaped(2) [OF shaped]
  have each: "(if matcher_of g \<noteq> []
                then (case map_of (index_of (groups_in v)) (JStr (matcher_of g)) of
                        Some existing_command \<Rightarrow>
                          [\<lparr>cf_event = event, cf_matcher = JStr (matcher_of g),
                            cf_existing_command = existing_command,
                            cf_new_command = first_command_of g\<rparr>]
                      | None \<Rightarrow> [])
                else [])
              = (if conflicts_with existing event g then [conflict_for existing event g] else [])"
    for g
    by (simp add: look conflicts_with_def conflict_for_def under)
  show ?thesis
    unfolding m option.case each concat_map_if ..
qed

lemma find_conflicts_shaped:
  assumes ex: "is_hooks_document existing" and new: "is_hooks_document new"
  shows "find_conflicts existing new = Inr (expected_conflicts existing new)"
proof -
  note e = hooks_document_parts [OF ex]
  note n = hooks_document_parts [OF new]
  from index_events_shaped [OF e(3) e(2), of "[]"] obtain em where
    em: "index_events (hooks_items existing) [] = Inr em"
    and look0: "\<forall>e. map_of em e =
               (case map_of (hooks_items existing) e of
                  Some v \<Rightarrow> Some (index_of (groups_in v))
                | None \<Rightarrow> map_of [] e)"
    by blast
  have look: "\<forall>e. map_of em e =
               (case map_of (hooks_items existing) e of
                  Some v \<Rightarrow> Some (index_of (groups_in v))
                | None \<Rightarrow> None)"
    using look0 by (simp cong: option.case_cong)
  have "find_conflicts existing new = check_events em (hooks_items new) []"
    by (simp add: find_conflicts_def e(1) n(1) items_of_def em)
  also have "\<dots> = Inr (expected_conflicts existing new)"
    unfolding check_events_shaped [OF n(3)] expected_conflicts_def
      event_conflicts_shaped [OF e(3) look]
    by simp
  finally show ?thesis .
qed

lemma has_conflicts_iff:
  "detect_conflicts existing_file new_json = Inr reply \<Longrightarrow>
     (has_conflicts reply = Some True) = (\<exists>found. conflicts_of reply = Some found \<and> found \<noteq> [])"
  by (auto simp: detect_conflicts_def split: path_state.splits option.splits sum.splits)

text \<open>
  C3. On two hook documents of the data model's shape, \<open>detect_conflicts\<close> returns the
  conflicts of the groups of the new document, in order, that have a non-empty matcher
  equal to the matcher of a group under the same event of the existing document, and of no
  other group; a group with an empty or absent matcher is never in conflict;
  \<open>has_conflicts\<close> is true exactly when the list of conflicts is there and not empty
  (\<open>detect_merge_conflicts\<close> answers \<open>False\<close> in the same cases). In the scenario with
  matcher \<open>Edit\<close> under PostToolUse in both documents there is exactly one conflict, with
  the existing command \<open>black .\<close> and the new command \<open>autopep8 .\<close>.
\<close>

theorem detect_conflicts_same_matcher:
  "(is_hooks_document existing \<and> is_hooks_document new \<longrightarrow>
      detect_conflicts (Parsed existing) (Some new)
        = Inr (Checked (expected_conflicts existing new \<noteq> []) (expected_conflicts existing new))
      \<and> detect_merge_conflicts (Parsed existing) (Parsed new)
        = Inr (expected_conflicts existing new = []))
   \<and> (\<forall>reply. detect_conflicts existing_file new_json = Inr reply \<longrightarrow>
         (has_conflicts reply = Some True)
           = (\<exists>found. conflicts_of reply = Some found \<and> found \<noteq> []))
   \<and> (matcher_of hook_group = [] \<longrightarrow> \<not> conflicts_with existing event hook_group)
   \<and> detect_conflicts
        (Parsed (JObj [(''hooks'', JObj [(''PostToolUse'',
           JArr [JObj [(''matcher'', JStr ''Edit''),
                       (''hooks'', JArr [JObj [(''type'', JStr ''command''),
                                               (''command'', JStr ''black .'')]])]])])]))
        (Some (JObj [(''hooks'', JObj [(''PostToolUse'',
           JArr [JObj [(''matcher'', JStr ''Edit''),
                       (''hooks'', JArr [JObj [(''type'', JStr ''command''),
                                               (''command'', JStr ''autopep8 .'')]])]])])]))
       = Inr (Checked True
               [\<lparr>cf_event = ''PostToolUse'', cf_matcher = JStr ''Edit'',
                 cf_existing_command = JStr ''black .'',
                 cf_new_command = JStr ''autopep8 .''\<rparr>])"
proof (intro conjI impI allI)
  assume a: "is_hooks_document existing \<and> is_hooks_document new"
  then have f: "find_conflicts existing new = Inr (expected_conflicts existing new)"
    by (simp add: find_conflicts_shaped)
  show "detect_conflicts (Parsed existing) (Some new)
        = Inr (Checked (expected_conflicts existing new \<noteq> []) (expected_conflicts existing new))"
    by (simp add: detect_conflicts_def f)
  show "detect_merge_conflicts (Parsed existing) (Parsed new)
        = Inr (expected_conflicts existing new = [])"
    by (simp add: detect_merge_conflicts_def f)
next
  fix reply assume "detect_conflicts existing_file new_json = Inr reply"
  then show "(has_conflicts reply = Some True)
           = (\<exists>found. conflicts_of reply = Some found \<and> found \<noteq> [])"
    by (rule has_conflicts_iff)
next
  assume "matcher_of hook_group = []"
  then show "\<not> conflicts_with existing event hook_group"
    by (simp add: conflicts_with_def)
next
  show "detect_conflicts
        (Parsed (JObj [(''hooks'', JObj [(''PostToolUse'',
           JArr [JObj [(''matcher'', JStr ''Edit''),
                       (''hooks'', JArr [JObj [(''type'', JStr ''command''),
                                               (''command'', JStr ''black .'')]])]])])]))
        (Some (JObj [(''hooks'', JObj [(''PostToolUse'',
           JArr [JObj [(''matcher'', JStr ''Edit''),
                       (''hooks'', JArr [JObj [(''type'', JStr ''command''),
                                               (''command'', JStr ''autopep8 .'')]])]])])]))
       = Inr (Checked True
               [\<lparr>cf_event = ''PostToolUse'', cf_matcher = JStr ''Edit'',
                 cf_existing_command = JStr ''black .'',
                 cf_new_command = JStr ''autopep8 .''\<rparr>])"
    by code_simp
qed

text \<open>
  The theorem at the documents of the two scenarios: the existing document with matcher
  \<open>Edit\<close>, a new one with a group without matcher followed by a group with matcher
  \<open>Edit\<close>, and a new one with matcher \<open>Write\<close>.
\<close>

theorem detect_conflicts_same_matcher_witness:
  "is_hooks_document (JObj [(''hooks'', JObj [(''PostToolUse'',
       JArr [JObj [(''matcher'', JStr ''Edit''),
                   (''hooks'', JArr [JObj [(''type'', JStr ''command''),
                                           (''command'', JStr ''black .'')]])]])])])
   \<and> is_hooks_document (JObj [(''hooks'', JObj [(''PostToolUse'',
       JArr [JObj [(''hooks'', JArr [JObj [(''type'', JStr ''command''),
                                           (''command'', JStr ''ls'')]])],
             JObj [(''matcher'', JStr ''Edit''),
                   (''hooks'', JArr [JObj [(''type'', JStr ''command''),
                                           (''command'', JStr ''autopep8 .'')]])]])])])
   \<and> is_hooks_document (JObj [(''hooks'', JObj [(''PostToolUse'',
       JArr [JObj [(''matcher'', JStr ''Write''),
                   (''hooks'', JArr [JObj [(''type'', JStr ''command''),
                                           (''command'', JStr ''prettier .'')]])]])])])
   \<and> detect_conflicts
        (Parsed (JObj [(''hooks'', JObj [(''PostToolUse'',
           JArr [JObj [(''matcher'', JStr ''Edit''),
                       (''hooks'', JArr [JObj [(''type'', JStr ''command''),
                                               (''command'', JStr ''black .'')]])]])])]))
        (Some (JObj [(''hooks'', JObj [(''PostToolUse'',
           JArr [JObj [(''hooks'', JArr [JObj [(''type'', JStr ''command''),
                                               (''command'', JStr ''ls'')]])],
                 JObj [(''matcher'', JStr ''Edit''),
                       (''hooks'', JArr [JObj [(''type'', JStr ''command''),
                                               (''command'', JStr ''autopep8 .'')]])]])])]))
       = Inr (Checked True
               [\<lparr>cf_event = ''PostToolUse'', cf_matcher = JStr ''Edit'',
                 cf_existing_command = JStr ''black .'',
                 cf_new_command = JStr ''autopep8 .''\<rparr>])
   \<and> detect_conflicts
        (Parsed (JObj [(''hooks'', JObj [(''PostToolUse'',
           JArr [JObj [(''matcher'', JStr ''Edit''),
                       (''hooks'', JArr [JObj [(''type'', JStr ''command''),
                                               (''command'', JStr ''black .'')]])]])])]))
        (Some (JObj [(''hooks'', JObj [(''PostToolUse'',
           JArr [JObj [(''matcher'', JStr ''Write''),
                       (''hooks'', JArr [JObj [(''type'', JStr ''command''),
                                               (''command'', JStr ''prettier .'')]])]])])]))
       = Inr (Checked False [])"
proof -
  let ?ex = "JObj [(''hooks'', JObj [(''PostToolUse'',
       JArr [JObj [(''matcher'', JStr ''Edit''),
                   (''hooks'', JArr [JObj [(''type'', JStr ''command''),
                                           (''command'', JStr ''black .'')]])]])])]"
  let ?n1 = "JObj [(''hooks'', JObj [(''PostToolUse'',
       JArr [JObj [(''hooks'', JArr [JObj [(''type'', JStr ''command''),
                                           (''command'', JStr ''ls'')]])],
             JObj [(''matcher'', JStr ''Edit''),
                   (''hooks'', JArr [JObj [(''type'', JStr ''command''),
                                           (''command'', JStr ''autopep8 .'')]])]])])]"
  let ?n2 = "JObj [(''hooks'', JObj [(''PostToolUse'',
       JArr [JObj [(''matcher'', JStr ''Write''),
                   (''hooks'', JArr [JObj [(''type'', JStr ''command''),
                                           (''command'', JStr ''prettier .'')]])]])])]"
  have d: "is_hooks_document ?ex" "is_hooks_document ?n1" "is_hooks_document ?n2"
    by (simp_all add: is_hooks_document_def is_event_entry_def is_hook_group_def)
  have e1: "expected_conflicts ?ex ?n1 =
              [\<lparr>cf_event = ''PostToolUse'', cf_matcher = JStr ''Edit'',
                cf_existing_command = JStr ''black .'',
                cf_new_command = JStr ''autopep8 .''\<rparr>]"
    by (simp add: expected_conflicts_def hooks_items_def groups_in_def conflicts_with_def
          groups_under_def matcher_of_def conflict_for_def first_command_of_def dict_get_def)
  have e2: "expected_conflicts ?ex ?n2 = []"
    by (simp add: expected_conflicts_def hooks_items_def groups_in_def conflicts_with_def
          groups_under_def matcher_of_def)
  from d(1) d(2) detect_conflicts_same_matcher [of ?ex ?n1]
  have "detect_conflicts (Parsed ?ex) (Some ?n1)
          = Inr (Checked (expected_conflicts ?ex ?n1 \<noteq> []) (expected_conflicts ?ex ?n1))"
    by blast
  then have r1: "detect_conflicts (Parsed ?ex) (Some ?n1)
       = Inr (Checked True
               [\<lparr>cf_event = ''PostToolUse'', cf_matcher = JStr ''Edit'',
                 cf_existing_command = JStr ''black .'',
                 cf_new_command = JStr ''autopep8 .''\<rparr>])"
    unfolding e1 by simp
  from d(1) d(3) detect_conflicts_same_matcher [of ?ex ?n2]
  have "detect_conflicts (Parsed ?ex) (Some ?n2)
          = Inr (Checked (expected_conflicts ?ex ?n2 \<noteq> []) (expected_conflicts ?ex ?n2))"
    by blast
  then have r2: "detect_conflicts (Parsed ?ex) (Some ?n2) = Inr (Checked False [])"
    unfolding e2 by simp
  show ?thesis by (intro conjI) (rule d r1 r2)+
qed

section \<open>Where the conflict detector raises\<close>

lemma find_conflicts_empty_hooks:
  assumes root: "map_of root ''hooks'' = Some (JObj ((event, JArr (JObj g # rest)) # others))"
    and matcher: "truthy (dict_get g ''matcher'' (JStr []))"
    and empty: "map_of g ''hooks'' = Some (JArr [])"
    and new: "hooks_of new_config = Inr new_hooks"
  shows "find_conflicts (JObj root) new_config = Inl IndexError"
proof -
  have "first_command g = Inl IndexError" using empty by (simp add: first_command_def)
  then have "index_groups (JObj g # rest) [] = Inl IndexError"
    using matcher by simp
  then have "index_events ((event, JArr (JObj g # rest)) # others) [] = Inl IndexError"
    by simp
  then show ?thesis
    using root new by (simp add: find_conflicts_def hooks_of_def dict_get_def items_of_def)
qed

text \<open>
  C9. An existing document whose first group carries a matcher that is true and a
  \<open>hooks\<close> key with the empty list makes \<open>detect_conflicts\<close> (and
  \<open>detect_merge_conflicts\<close>) raise \<open>IndexError\<close> at \<open>[0]\<close>, whatever the new document
  is, as long as its root is an object; the same line raises for a group of the new
  document that is in conflict and has an empty \<open>hooks\<close> list. Nothing in either function
  catches it.
\<close>

theorem detect_conflicts_empty_hooks_raises:
  "(map_of root ''hooks'' = Some (JObj ((event, JArr (JObj g # rest)) # others))
    \<and> truthy (dict_get g ''matcher'' (JStr []))
    \<and> map_of g ''hooks'' = Some (JArr [])
    \<and> hooks_of new_config = Inr new_hooks
    \<longrightarrow> detect_conflicts (Parsed (JObj root)) (Some new_config) = Inl IndexError
        \<and> detect_merge_conflicts (Parsed (JObj root)) (Parsed new_config) = Inl IndexError)
   \<and> detect_conflicts
        (Parsed (JObj [(''hooks'', JObj [(''PostToolUse'',
           JArr [JObj [(''matcher'', JStr ''Edit''),
                       (''hooks'', JArr [JObj [(''type'', JStr ''command''),
                                               (''command'', JStr ''black .'')]])]])])]))
        (Some (JObj [(''hooks'', JObj [(''PostToolUse'',
           JArr [JObj [(''matcher'', JStr ''Edit''), (''hooks'', JArr [])]])])]))
       = Inl IndexError"
proof (intro conjI impI)
  assume a: "map_of root ''hooks'' = Some (JObj ((event, JArr (JObj g # rest)) # others))
    \<and> truthy (dict_get g ''matcher'' (JStr []))
    \<and> map_of g ''hooks'' = Some (JArr [])
    \<and> hooks_of new_config = Inr new_hooks"
  then have f: "find_conflicts (JObj root) new_config = Inl IndexError"
    using find_conflicts_empty_hooks by blast
  show "detect_conflicts (Parsed (JObj root)) (Some new_config) = Inl IndexError"
    by (simp add: detect_conflicts_def f)
  show "detect_merge_conflicts (Parsed (JObj root)) (Parsed new_config) = Inl IndexError"
    by (simp add: detect_merge_conflicts_def f)
next
  show "detect_conflicts
        (Parsed (JObj [(''hooks'', JObj [(''PostToolUse'',
           JArr [JObj [(''matcher'', JStr ''Edit''),
                       (''hooks'', JArr [JObj [(''type'', JStr ''command''),
                                               (''command'', JStr ''black .'')]])]])])]))
        (Some (JObj [(''hooks'', JObj [(''PostToolUse'',
           JArr [JObj [(''matcher'', JStr ''Edit''), (''hooks'', JArr [])]])])]))
       = Inl IndexError"
    by code_simp
qed

text \<open>The theorem at an existing document with one such group and an empty new document.\<close>

theorem detect_conflicts_empty_hooks_raises_witness:
  "map_of [(''hooks'', JObj [(''PostToolUse'',
       JArr [JObj [(''matcher'', JStr ''Edit''), (''hooks'', JArr [])]])])] ''hooks''
     = Some (JObj [(''PostToolUse'', JArr [JObj [(''matcher'', JStr ''Edit''), (''hooks'', JArr [])]])])
   \<and> truthy (dict_get [(''matcher'', JStr ''Edit''), (''hooks'', JArr [])] ''matcher'' (JStr []))
   \<and> map_of [(''matcher'', JStr ''Edit''), (''hooks'', JArr [])] ''hooks'' = Some (JArr [])
   \<and> hooks_of (JObj []) = Inr (JObj [])
   \<and> detect_conflicts
        (Parsed (JObj [(''hooks'', JObj [(''PostToolUse'',
           JArr [JObj [(''matcher'', JStr ''Edit''), (''hooks'', JArr [])]])])]))
        (Some (JObj []))
       = Inl IndexError
   \<and> detect_merge_conflicts
        (Parsed (JObj [(''hooks'', JObj [(''PostToolUse'',
           JArr [JObj [(''matcher'', JStr ''Edit''), (''hooks'', JArr [])]])])]))
        (Parsed (JObj []))
       = Inl IndexError"
proof -
  let ?g = "[(''matcher'', JStr ''Edit''), (''hooks'', JArr [])]"
  let ?root = "[(''hooks'', JObj [(''PostToolUse'', JArr [JObj ?g])])]"
  have a: "map_of ?root ''hooks'' = Some (JObj ((''PostToolUse'', JArr (JObj ?g # [])) # []))"
    by simp
  have b: "truthy (dict_get ?g ''matcher'' (JStr []))" by (simp add: dict_get_def)
  have c: "map_of ?g ''hooks'' = Some (JArr [])" by simp
  have d: "hooks_of (JObj []) = Inr (JObj [])" by (simp add: hooks_of_def dict_get_def)
  from a b c d
    detect_conflicts_empty_hooks_raises [of ?root "''PostToolUse''" ?g "[]" "[]" "JObj []" "JObj []"]
  have r: "detect_conflicts (Parsed (JObj ?root)) (Some (JObj [])) = Inl IndexError
        \<and> detect_merge_conflicts (Parsed (JObj ?root)) (Parsed (JObj [])) = Inl IndexError"
    by blast
  show ?thesis using a b c d r by simp
qed

end
